theory Spec2Isabelle
  imports Complex_Main "HOL-Library.Word"
begin

section \<open>Data model (ofxFFmpeg.h)\<close>

text \<open>
  The recorder of \<^verbatim>\<open>src/ofxFFmpeg.cpp\<close> forwards raw frames to an external encoder
  through a pipe. Two execution contexts touch a \<^verbatim>\<open>Recorder\<close>: the caller (start, stop,
  addFrame) and the thread running \<^verbatim>\<open>processFrame\<close>. The model below keeps the members
  of the class as a record, takes every answer of the environment (the clock, the file
  system, \<^verbatim>\<open>popen\<close>, \<^verbatim>\<open>fwrite\<close>, \<^verbatim>\<open>ferror\<close>) as an argument, and runs the thread as a
  step function over the labelled lines of \<^verbatim>\<open>processFrame\<close>, so that an interleaving of
  the two contexts is a list of events.

  Idealisations: \<^verbatim>\<open>float\<close> values and time points are real numbers (no rounding);
  log output is left out; a call of the caller's context is one atomic event, and so is
  each step of the thread (every access to the queue or the pipe is under a mutex, and
  the flags are atomic).
\<close>

type_synonym size_t = "64 word"
type_synonym FILE = nat

record RecorderSettings =
  outputPath :: string
  videoResolution :: "int \<times> int"
  fps :: real
  bitrate :: nat
  videoCodec :: string
  extraInputArgs :: string
  extraOutputArgs :: string
  allowOverwrite :: bool
  ffmpegPath :: string

definition RecorderSettings_default :: RecorderSettings where
  "RecorderSettings_default =
     \<lparr> outputPath = ''output.mp4'', videoResolution = (640, 480), fps = 30,
       bitrate = 20000, videoCodec = ''libx264'', extraInputArgs = [],
       extraOutputArgs = ''-pix_fmt yuv420p -vsync 1 -g 1'', allowOverwrite = True,
       ffmpegPath = ''ffmpeg'' \<rparr>"

text \<open>
  \<^verbatim>\<open>ofPixels\<close> is openFrameworks' pixel container: a pointer to the bytes (null when
  nothing is allocated), the declared geometry, and the flag saying whether this object
  owns the bytes (a copy does, an object set up by \<^verbatim>\<open>setFromExternalPixels\<close> does not).
  Pixel bytes live in the process memory \<open>heap\<close>, addressed by natural numbers.
\<close>

datatype ofPixelFormat = OF_PIXELS_GRAY | OF_PIXELS_RGB | OF_PIXELS_RGBA

record ofPixels =
  pix_data :: "nat option"
  pix_width :: nat
  pix_height :: nat
  pix_format :: ofPixelFormat
  pix_owner :: bool

definition isAllocated :: "ofPixels \<Rightarrow> bool" where
  "isAllocated p = (pix_data p \<noteq> None)"

text \<open>
  The thread of \<^verbatim>\<open>processFrame\<close>: where it stands (the line of the source it executes
  next) and its local variables.
\<close>

datatype label = L201 | L208 | L211 | L219 | L251 | L255 | L262 | Finished

record thread_state =
  pc :: label
  lastFrameTime :: real
  framedur :: real
  needsQuit :: bool

text \<open>
  The members of \<^verbatim>\<open>Recorder\<close>, followed by the parts of the process the properties
  below speak about: the memory holding pixel bytes (\<open>heap\<close>, with \<open>brk\<close> the next fresh address) and
  \<open>piped\<close>, the record of every \<^verbatim>\<open>fwrite\<close> call made on the pipe (the queue entry handed
  over and the byte count \<^verbatim>\<open>fwrite\<close> returned).
\<close>

record Recorder =
  m_settings :: RecorderSettings
  m_isRecording :: bool
  m_isReady :: bool
  m_shouldQuitProcessing :: bool
  m_ffmpegPipe :: "FILE option"
  m_recordStartTime :: real
  m_lastFrameTime :: real
  m_nAddedFrames :: "32 word"
  m_thread :: "thread_state option"
  m_frames :: "ofPixels list"
  heap :: "nat \<Rightarrow> 8 word list option"
  brk :: nat
  piped :: "(ofPixels \<times> size_t) list"

text \<open>
  The constructor initialises \<^verbatim>\<open>m_isRecording\<close>, \<^verbatim>\<open>m_isReady\<close> and \<^verbatim>\<open>m_nAddedFrames\<close>
  only; \<^verbatim>\<open>m_shouldQuitProcessing\<close> starts with whatever value it happens to have, which
  is the argument here.
\<close>

definition Recorder_new :: "bool \<Rightarrow> Recorder" where
  "Recorder_new quit0 =
     \<lparr> m_settings = RecorderSettings_default, m_isRecording = False, m_isReady = True,
       m_shouldQuitProcessing = quit0, m_ffmpegPipe = None, m_recordStartTime = 0,
       m_lastFrameTime = 0, m_nAddedFrames = 0, m_thread = None, m_frames = [],
       heap = (\<lambda>a. None), brk = 0, piped = [] \<rparr>"

section \<open>The frame queue\<close>

text \<open>
  Modelled from the spec: \<^verbatim>\<open>LockFreeQueue\<close> is declared in \<^verbatim>\<open>ofxFFmpegHelpers.h\<close>, which
  is not among the sources. The spec describes it as a strict FIFO whose push never
  blocks and whose pop reports an empty queue: \<open>produce\<close> appends at the back, \<open>consume\<close>
  takes from the front.
\<close>

definition produce :: "'a \<Rightarrow> 'a list \<Rightarrow> 'a list" where
  "produce x q = q @ [x]"

definition consume :: "'a list \<Rightarrow> ('a \<times> 'a list) option" where
  "consume q = (case q of [] \<Rightarrow> None | x # r \<Rightarrow> Some (x, r))"

definition numFramesInQueue :: "Recorder \<Rightarrow> nat" where
  "numFramesInQueue s = length (m_frames s)"

text \<open>
  \<^verbatim>\<open>pixels->clear(); delete pixels;\<close> releases the bytes when the object owns them
  and leaves them alone when it is a view.
\<close>

definition delete_ofPixels :: "ofPixels \<Rightarrow> (nat \<Rightarrow> 8 word list option) \<Rightarrow> nat \<Rightarrow> 8 word list option" where
  "delete_ofPixels p h =
     (if pix_owner p then (case pix_data p of None \<Rightarrow> h | Some a \<Rightarrow> h(a := None)) else h)"

definition clearQueue :: "Recorder \<Rightarrow> Recorder" where
  "clearQueue s = s\<lparr> m_frames := [], heap := foldl (\<lambda>h p. delete_ofPixels p h) (heap s) (m_frames s) \<rparr>"

section \<open>The pipe\<close>

definition isPipeOpen :: "Recorder \<Rightarrow> bool" where
  "isPipeOpen s = (m_ffmpegPipe s \<noteq> None)"

text \<open>\<open>openPipe r\<close>: \<open>r\<close> is what \<^verbatim>\<open>popen\<close> returned, \<open>None\<close> for a null pointer.\<close>

definition openPipe :: "FILE option \<Rightarrow> Recorder \<Rightarrow> bool \<times> Recorder" where
  "openPipe r s =
     (case r of
        None \<Rightarrow> (False, s\<lparr> m_ffmpegPipe := None, m_isReady := True \<rparr>)
      | Some f \<Rightarrow> (True, s\<lparr> m_ffmpegPipe := Some f, m_isReady := False \<rparr>))"

definition closePipe :: "Recorder \<Rightarrow> bool \<times> Recorder" where
  "closePipe s = (True, s\<lparr> m_ffmpegPipe := None, m_isReady := True \<rparr>)"

section \<open>start and stop\<close>

text \<open>
  \<open>start doesFileExist r settings forceIfNotReady\<close>: \<open>doesFileExist p\<close> answers
  \<^verbatim>\<open>ofFile::doesFileExist(ofToDataPath(p, true), false)\<close>, and \<open>r\<close> is the result of
  \<^verbatim>\<open>popen\<close>. The command line (lines 76 to 100) only feeds \<^verbatim>\<open>popen\<close> and the log, so it is
  not built here. \<open>start_adopt\<close> is lines 68 to 118, reached when no check refuses.
\<close>

definition start_adopt :: "FILE option \<Rightarrow> RecorderSettings \<Rightarrow> Recorder \<Rightarrow> bool \<times> Recorder" where
  "start_adopt r settings s =
     (let s1 = s\<lparr> m_settings := settings \<rparr>;
          s2 = (if ffmpegPath (m_settings s1) = []
                then s1\<lparr> m_settings := (m_settings s1)\<lparr> ffmpegPath := ''ffmpeg'' \<rparr> \<rparr>
                else s1);
          s3 = s2\<lparr> m_nAddedFrames := 0 \<rparr>;
          s4 = (if isPipeOpen s3 then snd (closePipe s3) else s3);
          s5 = s4\<lparr> m_shouldQuitProcessing := False \<rparr>;
          s6 = (case openPipe r s5 of
                  (True, s') \<Rightarrow> s'\<lparr> m_isRecording := True \<rparr>
                | (False, s') \<Rightarrow> s')
      in (m_isRecording s6, s6))"

definition start_checks :: "(string \<Rightarrow> bool) \<Rightarrow> FILE option \<Rightarrow> RecorderSettings \<Rightarrow> Recorder \<Rightarrow> bool \<times> Recorder" where
  "start_checks doesFileExist r settings s =
     (if outputPath settings = [] then (False, s)
      else if doesFileExist (outputPath (m_settings s)) \<and> \<not> allowOverwrite (m_settings s)
      then (False, s)
      else start_adopt r settings s)"

definition start :: "(string \<Rightarrow> bool) \<Rightarrow> FILE option \<Rightarrow> RecorderSettings \<Rightarrow> bool \<Rightarrow> Recorder \<Rightarrow> bool \<times> Recorder" where
  "start doesFileExist r settings forceIfNotReady s =
     (if m_isRecording s then (False, s)
      else if \<not> m_isReady s
      then (if forceIfNotReady
            then start_checks doesFileExist r settings
                   (clearQueue (s\<lparr> m_shouldQuitProcessing := True \<rparr>))
            else (False, s))
      else start_checks doesFileExist r settings s)"

definition stop :: "Recorder \<Rightarrow> Recorder" where
  "stop s = s\<lparr> m_isRecording := False \<rparr>"

section \<open>Pacing\<close>

text \<open>
  The conversion of a \<^verbatim>\<open>float\<close> to \<^verbatim>\<open>size_t\<close> drops the fractional part (it rounds
  towards zero) and is undefined when the result does not fit: \<open>None\<close> here.
\<close>

definition size_t_of_float :: "real \<Rightarrow> size_t option" where
  "size_t_of_float x =
     (let t = (if 0 \<le> x then \<lfloor>x\<rfloor> else \<lceil>x\<rceil>)
      in if 0 \<le> t \<and> t < 2 ^ 64 then Some (word_of_int t) else None)"

definition getRecordedDuration :: "Recorder \<Rightarrow> real" where
  "getRecordedDuration s = real (unat (m_nAddedFrames s)) / fps (m_settings s)"

text \<open>
  Lines 131 and 132, and again 164 and 165:
  \<^verbatim>\<open>delta = Seconds(now - m_recordStartTime).count() - getRecordedDuration();\<close>
  \<^verbatim>\<open>framesToWrite = delta * m_settings.fps;\<close>
\<close>

definition framesToWrite :: "real \<Rightarrow> real \<Rightarrow> real \<Rightarrow> real \<Rightarrow> size_t option" where
  "framesToWrite now startTime recordedDuration fps' =
     size_t_of_float (((now - startTime) - recordedDuration) * fps')"

datatype fault = UndefinedConversion | JoinBlocked | Diverges

definition wantsFrame :: "real \<Rightarrow> Recorder \<Rightarrow> fault + bool" where
  "wantsFrame now s =
     (if m_isRecording s \<and> isPipeOpen s
      then (case framesToWrite now (m_recordStartTime s) (getRecordedDuration s) (fps (m_settings s)) of
              None \<Rightarrow> Inl UndefinedConversion
            | Some n \<Rightarrow> Inr (n > 0))
      else Inr False)"

section \<open>addFrame\<close>

text \<open>
  \<^verbatim>\<open>new ofPixels( pixels )\<close>: the copy owns fresh bytes holding what the source holds.
  \<^verbatim>\<open>setFromExternalPixels\<close> on a new object: a view of bytes owned elsewhere.
\<close>

definition copy_ofPixels :: "ofPixels \<Rightarrow> Recorder \<Rightarrow> ofPixels \<times> Recorder" where
  "copy_ofPixels pixels s =
     (case pix_data pixels of
        None \<Rightarrow> (pixels\<lparr> pix_owner := True \<rparr>, s)
      | Some src \<Rightarrow>
          (pixels\<lparr> pix_data := Some (brk s), pix_owner := True \<rparr>,
           s\<lparr> heap := (heap s)(brk s := heap s src), brk := brk s + 1 \<rparr>))"

definition setFromExternalPixels :: "nat option \<Rightarrow> nat \<Rightarrow> nat \<Rightarrow> ofPixelFormat \<Rightarrow> ofPixels" where
  "setFromExternalPixels d w h f =
     \<lparr> pix_data = d, pix_width = w, pix_height = h, pix_format = f, pix_owner = False \<rparr>"

text \<open>
  The state of the loop of lines 170 to 193: the recorder, \<^verbatim>\<open>written\<close>, \<^verbatim>\<open>pixPtr\<close>, and the
  number of clock readings taken so far in this call (\<open>clk i\<close> is the \<open>i\<close>-th reading of
  \<^verbatim>\<open>Clock::now()\<close> during the call).
\<close>

type_synonym loop_state = "Recorder \<times> size_t \<times> ofPixels option \<times> nat"

definition addFrame_body :: "(nat \<Rightarrow> real) \<Rightarrow> ofPixels \<Rightarrow> size_t \<Rightarrow> loop_state \<Rightarrow> loop_state" where
  "addFrame_body clk pixels ftw st =
     (case st of (s, written, pixPtr, k) \<Rightarrow>
        (case (case pixPtr of None \<Rightarrow> copy_ofPixels pixels s | Some p \<Rightarrow> (p, s)) of
           (p, s1) \<Rightarrow>
             (let entry = (if written = ftw - 1 then p
                           else setFromExternalPixels (pix_data p) (pix_width p) (pix_height p) (pix_format p));
                  s2 = s1\<lparr> m_frames := produce entry (m_frames s1) \<rparr>;
                  s3 = s2\<lparr> m_nAddedFrames := m_nAddedFrames s2 + 1 \<rparr>;
                  s4 = s3\<lparr> m_lastFrameTime := clk k \<rparr>
              in (s4, written + 1, Some p, k + 1))))"

partial_function (option) addFrame_loop :: "(nat \<Rightarrow> real) \<Rightarrow> ofPixels \<Rightarrow> size_t \<Rightarrow> loop_state \<Rightarrow> loop_state option" where
  "addFrame_loop clk pixels ftw st =
     (if m_nAddedFrames (fst st) = 0 \<or> fst (snd st) < ftw
      then addFrame_loop clk pixels ftw (addFrame_body clk pixels ftw st)
      else Some st)"

declare addFrame_loop.simps [code]

definition thread_new :: thread_state where
  "thread_new = \<lparr> pc = L201, lastFrameTime = 0, framedur = 0, needsQuit = False \<rparr>"

text \<open>
  Lines 156 to 161. Joining a thread that has not finished blocks the caller until it
  has: \<open>JoinBlocked\<close>. The result carries the number of clock readings taken.
\<close>

definition thread_running :: "Recorder \<Rightarrow> bool" where
  "thread_running s = (case m_thread s of None \<Rightarrow> False | Some t \<Rightarrow> pc t \<noteq> Finished)"

definition addFrame_first :: "(nat \<Rightarrow> real) \<Rightarrow> Recorder \<Rightarrow> fault + (Recorder \<times> nat)" where
  "addFrame_first clk s =
     (if m_nAddedFrames s = 0
      then (if thread_running s
            then Inl JoinBlocked
            else Inr (s\<lparr> m_thread := Some thread_new, m_recordStartTime := clk 0,
                         m_lastFrameTime := clk 0 \<rparr>, 1))
      else Inr (s, 0))"

definition addFrame :: "(nat \<Rightarrow> real) \<Rightarrow> ofPixels \<Rightarrow> Recorder \<Rightarrow> fault + (size_t \<times> Recorder)" where
  "addFrame clk pixels s =
     (if \<not> m_isRecording s then Inr (0, s)
      else if m_ffmpegPipe s = None then Inr (0, s)
      else if \<not> isAllocated pixels then Inr (0, s)
      else (case addFrame_first clk s of
              Inl e \<Rightarrow> Inl e
            | Inr (s1, k) \<Rightarrow>
                (case framesToWrite (clk k) (m_recordStartTime s1) (getRecordedDuration s1)
                        (fps (m_settings s1)) of
                   None \<Rightarrow> Inl UndefinedConversion
                 | Some ftw \<Rightarrow>
                     (case addFrame_loop clk pixels ftw (s1, 0, None, k + 1) of
                        None \<Rightarrow> Inl Diverges
                      | Some (s2, written, pixPtr, k') \<Rightarrow> Inr (written, s2)))))"

section \<open>processFrame\<close>

text \<open>
  What the environment answers during one step of the thread: the clock, the return
  value of \<^verbatim>\<open>fwrite\<close> and that of \<^verbatim>\<open>ferror\<close>. Line 233 calls \<^verbatim>\<open>fwrite\<close> only when the
  pipe is not null and takes 0 otherwise (\<open>fwrite_result\<close>); line 236 is the test
  \<open>write_failed\<close>.
\<close>

record io =
  io_now :: real
  io_fwrite :: size_t
  io_ferror :: bool

text \<open>
  Line 230: the product is formed in \<^verbatim>\<open>int\<close> and converted to \<^verbatim>\<open>size_t\<close>. The model
  takes the exact product (an overflow of \<^verbatim>\<open>int\<close> is undefined in the source).
\<close>

definition dataLength :: "RecorderSettings \<Rightarrow> size_t" where
  "dataLength st = word_of_int (fst (videoResolution st) * snd (videoResolution st) * 3)"

text \<open>
  One step of the thread, from the line it stands at to the next label:
  \<^item> \<open>L201\<close>: the test of the outer loop, then lines 203 to 206;
  \<^item> \<open>L208\<close>: the test of the inner loop;
  \<^item> \<open>L211\<close>: the clock is read and compared with the frame duration;
  \<^item> \<open>L219\<close>: one entry is consumed, written to the pipe and deleted (lines 219 to 248);
  \<^item> \<open>L251\<close> and \<open>L255\<close>: the two tests of \<^verbatim>\<open>needsQuit\<close>;
  \<^item> \<open>L262\<close>: \<^verbatim>\<open>closePipe()\<close>, after which the thread has finished.
  Queue entries are never null in this model (addFrame produces none).
\<close>

definition fwrite_result :: "io \<Rightarrow> Recorder \<Rightarrow> size_t" where
  "fwrite_result e s = (case m_ffmpegPipe s of None \<Rightarrow> 0 | Some f \<Rightarrow> io_fwrite e)"

definition write_failed :: "size_t \<Rightarrow> io \<Rightarrow> Recorder \<Rightarrow> bool" where
  "write_failed written e s =
     (written = 0 \<or> written \<noteq> dataLength (m_settings s) \<or> io_ferror e)"

definition processFrame_step :: "io \<Rightarrow> thread_state \<Rightarrow> Recorder \<Rightarrow> thread_state \<times> Recorder" where
  "processFrame_step e t s =
     (case pc t of
        L201 \<Rightarrow>
          (if m_isRecording s \<and> \<not> m_shouldQuitProcessing s
           then (t\<lparr> pc := L208, lastFrameTime := io_now e,
                    framedur := 1 / fps (m_settings s), needsQuit := False \<rparr>, s)
           else (t\<lparr> pc := L262 \<rparr>, s))
      | L208 \<Rightarrow>
          (if numFramesInQueue s > 0 \<and> \<not> m_shouldQuitProcessing s
           then (t\<lparr> pc := L211 \<rparr>, s)
           else (t\<lparr> pc := L255 \<rparr>, s))
      | L211 \<Rightarrow>
          (if io_now e - lastFrameTime t \<ge> framedur t
           then (t\<lparr> pc := L219 \<rparr>, s)
           else (t\<lparr> pc := L251 \<rparr>, s))
      | L219 \<Rightarrow>
          (case consume (m_frames s) of
             None \<Rightarrow> (t\<lparr> pc := L251 \<rparr>, s)
           | Some (pixels, rest) \<Rightarrow>
               (let written = fwrite_result e s;
                    s1 = s\<lparr> m_frames := rest,
                            piped := (case m_ffmpegPipe s of
                                        None \<Rightarrow> piped s
                                      | Some f \<Rightarrow> piped s @ [(pixels, written)]),
                            heap := delete_ofPixels pixels (heap s) \<rparr>
                in (t\<lparr> pc := L251,
                         needsQuit := (if write_failed written e s then True else needsQuit t),
                         lastFrameTime := io_now e \<rparr>, s1)))
      | L251 \<Rightarrow> (if needsQuit t then (t\<lparr> pc := L255 \<rparr>, s) else (t\<lparr> pc := L208 \<rparr>, s))
      | L255 \<Rightarrow> (if needsQuit t then (t\<lparr> pc := L262 \<rparr>, s) else (t\<lparr> pc := L201 \<rparr>, s))
      | L262 \<Rightarrow> (t\<lparr> pc := Finished \<rparr>, snd (closePipe s))
      | Finished \<Rightarrow> (t, s))"

section \<open>Interleavings\<close>

text \<open>
  An execution is a list of events: a call of the caller's context, or one step of the
  thread. A call of addFrame that cannot return at this point (it waits for the thread, or
  its behaviour is undefined) leaves the state as it is.
\<close>

datatype event =
    Start "string \<Rightarrow> bool" "FILE option" RecorderSettings bool
  | Stop
  | AddFrame "nat \<Rightarrow> real" ofPixels
  | Step io

definition thread_step :: "io \<Rightarrow> Recorder \<Rightarrow> Recorder" where
  "thread_step e s =
     (case m_thread s of
        None \<Rightarrow> s
      | Some t \<Rightarrow> (case processFrame_step e t s of (t', s') \<Rightarrow> s'\<lparr> m_thread := Some t' \<rparr>))"

fun exec :: "event \<Rightarrow> Recorder \<Rightarrow> Recorder" where
  "exec (Start doesFileExist r settings forceIfNotReady) s = snd (start doesFileExist r settings forceIfNotReady s)"
| "exec Stop s = stop s"
| "exec (AddFrame clk pixels) s = (case addFrame clk pixels s of Inl e \<Rightarrow> s | Inr (n, s') \<Rightarrow> s')"
| "exec (Step e) s = thread_step e s"

fun run :: "event list \<Rightarrow> Recorder \<Rightarrow> Recorder" where
  "run [] s = s"
| "run (ev # evs) s = run evs (exec ev s)"

section \<open>Auxiliary definitions for the proofs\<close>

text \<open>
  What one pass of the loop pushes when \<^verbatim>\<open>written\<close> has the given value, the object
  \<^verbatim>\<open>pixPtr\<close> points to from the first pass on, and the number of passes the loop makes
  when it starts with \<^verbatim>\<open>written == 0\<close> and \<^verbatim>\<open>m_nAddedFrames == n\<close>: one pass per frame
  to write, and one more when the 32-bit counter is zero at the moment the last
  of them is done.
\<close>

definition pushed_entry :: "size_t \<Rightarrow> ofPixels \<Rightarrow> size_t \<Rightarrow> ofPixels" where
  "pushed_entry ftw p written =
     (if written = ftw - 1 then p
      else setFromExternalPixels (pix_data p) (pix_width p) (pix_height p) (pix_format p))"

definition the_copy :: "ofPixels \<Rightarrow> Recorder \<Rightarrow> ofPixels option \<Rightarrow> ofPixels" where
  "the_copy pixels s pixPtr =
     (case pixPtr of None \<Rightarrow> fst (copy_ofPixels pixels s) | Some p \<Rightarrow> p)"

definition addFrame_count :: "32 word \<Rightarrow> size_t \<Rightarrow> nat" where
  "addFrame_count n ftw = (if n + ucast ftw = 0 then unat ftw + 1 else unat ftw)"

text \<open>
  The number of frames due that a call of \<open>addFrame\<close> computes at lines 164 and 165, once
  it has passed the three checks: \<open>None\<close> when the call does not get there (it waits for
  the thread) or the conversion is undefined.
\<close>

definition addFrame_due :: "(nat \<Rightarrow> real) \<Rightarrow> Recorder \<Rightarrow> size_t option" where
  "addFrame_due clk s =
     (case addFrame_first clk s of
        Inl e \<Rightarrow> None
      | Inr (s1, k) \<Rightarrow>
          framesToWrite (clk k) (m_recordStartTime s1) (getRecordedDuration s1)
            (fps (m_settings s1)))"

text \<open>
  For the thread running on its own: a step whose write succeeds (\<^verbatim>\<open>fwrite\<close> returns the
  whole length, which is not zero, and \<^verbatim>\<open>ferror\<close> reports nothing), and the invariant of
  a thread that is not asked to quit and has seen no failure. \<open>W\<close> is the sequence of
  entries written so far followed by those still queued: inside the inner loop it never
  changes, and the thread is past the inner loop only with an empty queue.
\<close>

definition written_ok :: "io \<Rightarrow> RecorderSettings \<Rightarrow> bool" where
  "written_ok e st = (io_fwrite e = dataLength st \<and> io_fwrite e \<noteq> 0 \<and> \<not> io_ferror e)"

definition draining_inv :: "ofPixels list \<Rightarrow> RecorderSettings \<Rightarrow> Recorder \<Rightarrow> bool" where
  "draining_inv W st s =
     (\<not> m_shouldQuitProcessing s \<and> m_settings s = st \<and>
      (case m_thread s of
         None \<Rightarrow> False
       | Some t \<Rightarrow>
           (if pc t \<in> {L208, L211, L219, L251}
            then \<not> needsQuit t \<and> m_ffmpegPipe s \<noteq> None \<and> map fst (piped s) @ m_frames s = W
            else if pc t \<in> {L201, L255}
            then \<not> needsQuit t \<and> m_ffmpegPipe s \<noteq> None \<and> m_frames s = [] \<and> map fst (piped s) = W
            else m_frames s = [] \<and> map fst (piped s) = W)))"

section \<open>Example inputs\<close>

text \<open>
  A clock that reads \<open>t\<close> at every reading of a call; a file system with no file, and
  one with a single file; settings for frames of one pixel; a frame of one red pixel
  whose bytes the caller keeps at address 0; a recorder just constructed in a process
  whose memory holds that frame; the same recorder once \<open>start\<close> has succeeded with the
  given settings; and once the first frame has been added at the very instant the
  recording started.
\<close>

definition clock_at :: "real \<Rightarrow> nat \<Rightarrow> real" where
  "clock_at t i = t"

definition no_file :: "string \<Rightarrow> bool" where
  "no_file p = False"

definition only_file :: "string \<Rightarrow> string \<Rightarrow> bool" where
  "only_file f p = (p = f)"

definition tiny_settings :: RecorderSettings where
  "tiny_settings = RecorderSettings_default\<lparr> videoResolution := (1, 1) \<rparr>"

definition taken_settings :: RecorderSettings where
  "taken_settings = tiny_settings\<lparr> outputPath := ''taken.mp4'', allowOverwrite := False \<rparr>"

definition red_pixel :: ofPixels where
  "red_pixel = \<lparr> pix_data = Some 0, pix_width = 1, pix_height = 1,
                 pix_format = OF_PIXELS_RGB, pix_owner = True \<rparr>"

definition fresh_recorder :: Recorder where
  "fresh_recorder =
     (Recorder_new False)\<lparr> heap := (\<lambda>a. None)(0 := Some [255, 0, 0]), brk := 1 \<rparr>"

definition recording :: "RecorderSettings \<Rightarrow> Recorder" where
  "recording st =
     fresh_recorder\<lparr> m_settings := st, m_isRecording := True, m_isReady := False,
                     m_ffmpegPipe := Some 1 \<rparr>"

definition after_first :: "RecorderSettings \<Rightarrow> Recorder" where
  "after_first st =
     (recording st)\<lparr> m_nAddedFrames := 1, m_thread := Some thread_new,
        m_frames := [red_pixel\<lparr> pix_data := Some 1, pix_owner := False \<rparr>],
        heap := (\<lambda>a. None)(0 := Some [255, 0, 0], 1 := Some [255, 0, 0]), brk := 2 \<rparr>"

text \<open>
  The recorder once a second frame has been added a tenth of a second later (two more
  entries); a clock that reads a hundredth of a second at its first reading and zero
  afterwards; a frame with no pixels allocated; a step of the thread during which the
  clock reads one second and \<^verbatim>\<open>fwrite\<close> writes all three bytes; the thread about to
  consume an entry; and a step in which \<^verbatim>\<open>fwrite\<close> writes one byte of the three.
\<close>

definition after_second :: "RecorderSettings \<Rightarrow> Recorder" where
  "after_second st =
     (after_first st)\<lparr> m_nAddedFrames := 3, m_lastFrameTime := 1 / 10,
        m_frames := [red_pixel\<lparr> pix_data := Some 1, pix_owner := False \<rparr>,
                     red_pixel\<lparr> pix_data := Some 2, pix_owner := False \<rparr>,
                     red_pixel\<lparr> pix_data := Some 2, pix_owner := True \<rparr>],
        heap := (\<lambda>a. None)(0 := Some [255, 0, 0], 1 := Some [255, 0, 0], 2 := Some [255, 0, 0]),
        brk := 3 \<rparr>"

definition clock_back :: "nat \<Rightarrow> real" where
  "clock_back i = (if i = 0 then 1 / 100 else 0)"

definition empty_frame :: ofPixels where
  "empty_frame = \<lparr> pix_data = None, pix_width = 0, pix_height = 0,
                   pix_format = OF_PIXELS_RGB, pix_owner = True \<rparr>"

definition on_time :: io where
  "on_time = \<lparr> io_now = 1, io_fwrite = 3, io_ferror = False \<rparr>"

definition at_write :: thread_state where
  "at_write = \<lparr> pc = L219, lastFrameTime = 0, framedur = 1 / 30, needsQuit = False \<rparr>"

definition short_write :: io where
  "short_write = \<lparr> io_now = 1, io_fwrite = 1, io_ferror = False \<rparr>"

text \<open>
  An execution: the recording is started, one frame is added, \<open>stop\<close> is called at once,
  and then the thread, which addFrame has just created, makes its first two steps.
\<close>

definition stop_at_once :: "event list" where
  "stop_at_once =
     [Start no_file (Some 1) tiny_settings False, AddFrame (clock_at 0) red_pixel, Stop,
      Step on_time, Step on_time]"

text \<open>
  A step of the thread at clock reading \<open>t\<close> in which \<^verbatim>\<open>fwrite\<close> writes all three bytes;
  the thread at the test of its inner loop; the recorder with three queued entries,
  that thread, and \<open>stop\<close> called; and sixteen steps during which the clock advances by
  a second every four steps.
\<close>

definition tick :: "real \<Rightarrow> io" where
  "tick t = \<lparr> io_now = t, io_fwrite = 3, io_ferror = False \<rparr>"

definition in_inner_loop :: "thread_state" where
  "in_inner_loop = \<lparr> pc = L208, lastFrameTime = 0, framedur = 1 / 30, needsQuit = False \<rparr>"

definition stopped_with_queue :: Recorder where
  "stopped_with_queue = stop ((after_second tiny_settings)\<lparr> m_thread := Some in_inner_loop \<rparr>)"

definition drain_schedule :: "io list" where
  "drain_schedule =
     [tick 1, tick 1, tick 1, tick 1, tick 2, tick 2, tick 2, tick 2,
      tick 3, tick 3, tick 3, tick 3, tick 4, tick 4, tick 4, tick 4]"

lemmas example_defs =
  clock_at_def no_file_def only_file_def tiny_settings_def taken_settings_def red_pixel_def
  fresh_recorder_def recording_def after_first_def after_second_def clock_back_def
  empty_frame_def on_time_def at_write_def short_write_def Recorder_new_def
  RecorderSettings_default_def

lemmas code_defs =
  start_def start_checks_def start_adopt_def isPipeOpen_def openPipe_def closePipe_def
  stop_def clearQueue_def addFrame_def addFrame_first_def thread_running_def
  addFrame_body_def copy_ofPixels_def
  setFromExternalPixels_def produce_def consume_def framesToWrite_def size_t_of_float_def
  getRecordedDuration_def isAllocated_def thread_new_def thread_step_def
  processFrame_step_def fwrite_result_def write_failed_def numFramesInQueue_def
  dataLength_def delete_ofPixels_def ceiling_def

section \<open>start\<close>

lemma start_fresh: "start no_file (Some 1) st False fresh_recorder = (outputPath st \<noteq> [], 
    if outputPath st = [] then fresh_recorder
    else recording (if ffmpegPath st = [] then st\<lparr> ffmpegPath := ''ffmpeg'' \<rparr> else st))"
  by (simp add: example_defs code_defs)

text \<open>
  C9. Calling \<open>start\<close> while already recording returns false and changes no state:
  the settings, the frame counter, the queue, the pipe and the flags are those of before.
\<close>

theorem start_while_recording:
  "m_isRecording s \<Longrightarrow> start doesFileExist r settings forceIfNotReady s = (False, s)"
  by (simp add: start_def)

theorem start_while_recording_witness:
  "m_isRecording (after_first tiny_settings) \<and>
   start no_file (Some 2) taken_settings True (after_first tiny_settings)
     = (False, after_first tiny_settings)"
  using start_while_recording [of "after_first tiny_settings" no_file "Some 2" taken_settings True]
  by (simp add: after_first_def recording_def)

text \<open>
  C10. A failed start is not atomic. When \<open>start\<close> is called with \<open>forceIfNotReady\<close> while
  the previous recording is still draining (not recording, not ready) and one of the two
  checks that follow refuses (the new output path is empty, as in the example, or the
  check of line 63 finds an existing file that may not be overwritten), it returns
  false, yet the queue has been cleared and the quit signal set: what the previous
  session had queued is lost.
\<close>

theorem failed_forced_start_clears_queue:
  assumes "\<not> m_isRecording s" and "\<not> m_isReady s"
    and "outputPath settings = []
         \<or> (doesFileExist (outputPath (m_settings s)) \<and> \<not> allowOverwrite (m_settings s))"
  shows "start doesFileExist r settings True s
           = (False, clearQueue (s\<lparr> m_shouldQuitProcessing := True \<rparr>))
         \<and> m_frames (snd (start doesFileExist r settings True s)) = []
         \<and> m_shouldQuitProcessing (snd (start doesFileExist r settings True s))"
  using assms by (auto simp: start_def start_checks_def clearQueue_def)

theorem failed_forced_start_clears_queue_witness:
  "\<not> m_isRecording (stop (after_first tiny_settings))
   \<and> \<not> m_isReady (stop (after_first tiny_settings))
   \<and> outputPath (tiny_settings\<lparr> outputPath := [] \<rparr>) = []
   \<and> m_frames (stop (after_first tiny_settings)) \<noteq> []
   \<and> \<not> m_shouldQuitProcessing (stop (after_first tiny_settings))
   \<and> fst (start no_file (Some 2) (tiny_settings\<lparr> outputPath := [] \<rparr>) True
            (stop (after_first tiny_settings))) = False
   \<and> m_frames (snd (start no_file (Some 2) (tiny_settings\<lparr> outputPath := [] \<rparr>) True
            (stop (after_first tiny_settings)))) = []
   \<and> m_shouldQuitProcessing (snd (start no_file (Some 2) (tiny_settings\<lparr> outputPath := [] \<rparr>) True
            (stop (after_first tiny_settings))))"
proof -
  have a: "\<not> m_isRecording (stop (after_first tiny_settings))"
    by (simp add: stop_def)
  have b: "\<not> m_isReady (stop (after_first tiny_settings))"
    by (simp add: stop_def after_first_def recording_def)
  have c: "outputPath (tiny_settings\<lparr> outputPath := [] \<rparr>) = []"
    by simp
  have c': "outputPath (tiny_settings\<lparr> outputPath := [] \<rparr>) = []
            \<or> (no_file (outputPath (m_settings (stop (after_first tiny_settings))))
                \<and> \<not> allowOverwrite (m_settings (stop (after_first tiny_settings))))"
    using c by simp
  have d: "m_frames (stop (after_first tiny_settings)) \<noteq> []
           \<and> \<not> m_shouldQuitProcessing (stop (after_first tiny_settings))"
    by (simp add: example_defs stop_def)
  show ?thesis
    using a b c d
      failed_forced_start_clears_queue
        [where s = "stop (after_first tiny_settings)"
           and settings = "tiny_settings\<lparr> outputPath := [] \<rparr>"
           and doesFileExist = no_file and r = "Some 2", OF a b c']
    by (simp add: clearQueue_def)
qed

text \<open>
  C3 says that \<open>start\<close> returns false when the output path of the settings being adopted
  names an existing file and those settings disallow overwriting. Line 63 tests
  \<^verbatim>\<open>m_settings\<close>, the settings of before the call, which are replaced only at line 68.
  On a recorder just constructed (default settings, which allow overwriting) a start
  with settings that name the existing file \<^verbatim>\<open>taken.mp4\<close> and disallow overwriting
  succeeds and the recorder is recording.
\<close>

theorem start_overwrites_existing_file:
  "only_file ''taken.mp4'' (outputPath taken_settings)
   \<and> \<not> allowOverwrite taken_settings
   \<and> start (only_file ''taken.mp4'') (Some 1) taken_settings False fresh_recorder
       = (True, recording taken_settings)
   \<and> m_isRecording (recording taken_settings)"
  by (simp add: example_defs code_defs)

text \<open>
  The empty output path: \<open>start\<close> on a recorder that is not recording, with
  settings whose output path is empty, returns false and the recorder is not recording.
\<close>

theorem start_refuses_empty_path:
  assumes "\<not> m_isRecording s" and "outputPath settings = []"
  shows "fst (start doesFileExist r settings forceIfNotReady s) = False
         \<and> \<not> m_isRecording (snd (start doesFileExist r settings forceIfNotReady s))"
  using assms by (simp add: start_def start_checks_def clearQueue_def)

theorem start_refuses_empty_path_witness:
  "\<not> m_isRecording fresh_recorder
   \<and> outputPath (tiny_settings\<lparr> outputPath := [] \<rparr>) = []
   \<and> fst (start no_file (Some 1) (tiny_settings\<lparr> outputPath := [] \<rparr>) False fresh_recorder) = False
   \<and> \<not> m_isRecording (snd (start no_file (Some 1) (tiny_settings\<lparr> outputPath := [] \<rparr>) False fresh_recorder))"
proof -
  have a: "\<not> m_isRecording fresh_recorder"
    by (simp add: example_defs)
  have b: "outputPath (tiny_settings\<lparr> outputPath := [] \<rparr>) = []"
    by simp
  show ?thesis
    using a b start_refuses_empty_path [OF a b, of no_file "Some 1" False] by simp
qed

section \<open>Properties of the pacing computation\<close>

lemma trunc_mono:
  fixes x y :: real
  assumes "x \<le> y"
  shows "(if 0 \<le> x then \<lfloor>x\<rfloor> else \<lceil>x\<rceil>) \<le> (if 0 \<le> y then \<lfloor>y\<rfloor> else \<lceil>y\<rceil>)"
proof (cases "0 \<le> x")
  case True
  then show ?thesis using assms by (simp add: floor_mono)
next
  case False
  show ?thesis
  proof (cases "0 \<le> y")
    case True
    have "\<lceil>x\<rceil> \<le> 0" using False by (simp add: ceiling_le_zero)
    moreover have "0 \<le> \<lfloor>y\<rfloor>" using True by simp
    ultimately have "\<lceil>x\<rceil> \<le> \<lfloor>y\<rfloor>" by linarith
    then show ?thesis using False True by simp
  next
    case False
    then show ?thesis using \<open>\<not> 0 \<le> x\<close> assms by (simp add: ceiling_mono)
  qed
qed

lemma size_t_of_float_mono:
  assumes "x \<le> y" and "size_t_of_float x = Some a" and "size_t_of_float y = Some b"
  shows "a \<le> b"
proof -
  let ?t = "\<lambda>z::real. if 0 \<le> z then \<lfloor>z\<rfloor> else \<lceil>z\<rceil>"
  have a: "a = word_of_int (?t x)" "0 \<le> ?t x" "?t x < 2 ^ 64"
    using assms(2) by (auto simp: size_t_of_float_def Let_def split: if_splits)
  have b: "b = word_of_int (?t y)" "0 \<le> ?t y" "?t y < 2 ^ 64"
    using assms(3) by (auto simp: size_t_of_float_def Let_def split: if_splits)
  have "?t x \<le> ?t y"
    using assms(1) by (rule trunc_mono)
  moreover have "uint a = ?t x"
    using a by (simp add: uint_word_of_int take_bit_eq_mod)
  moreover have "uint b = ?t y"
    using b by (simp add: uint_word_of_int take_bit_eq_mod)
  ultimately show ?thesis
    by (simp add: word_le_def)
qed

text \<open>
  C8 says that the number of frames due is \<open>floor (((now - startTime) - recordedDuration) * fps)\<close>
  and does not decrease when \<open>now\<close> grows, for every \<open>now\<close>. Lines 132 and 165 convert the
  product to \<^verbatim>\<open>size_t\<close>, which drops the fractional part and has no defined result for a
  product of \<open>-1\<close> or less. At 30 frames per second with one frame recorded, the
  conversion is undefined at the instant the recording started (the product is \<open>-1\<close>;
  \<open>wantsFrame\<close> called then, on the recorder that holds its first frame, is in that case),
  and a hundredth of a second later it gives \<open>0\<close> where the floor is \<open>-1\<close>.
\<close>

theorem framesToWrite_is_not_floor:
  "framesToWrite 0 0 (1 / 30) 30 = None
   \<and> wantsFrame 0 (after_first tiny_settings) = Inl UndefinedConversion
   \<and> framesToWrite (1 / 100) 0 (1 / 30) 30 = Some 0
   \<and> \<lfloor>(((1 / 100 :: real) - 0) - 1 / 30) * 30\<rfloor> = - 1"
proof -
  have a: "framesToWrite 0 0 (1 / 30) 30 = None"
    by (simp add: framesToWrite_def size_t_of_float_def)
  have b: "wantsFrame 0 (after_first tiny_settings) = Inl UndefinedConversion"
    by (simp add: wantsFrame_def example_defs code_defs)
  have c: "framesToWrite (1 / 100) 0 (1 / 30) 30 = Some 0"
    by (simp add: framesToWrite_def size_t_of_float_def ceiling_def)
  have d: "\<lfloor>(((1 / 100 :: real) - 0) - 1 / 30) * 30\<rfloor> = - 1"
    by simp
  show ?thesis
    using a b c d by simp
qed

text \<open>
  C8, amended. The number of frames due, computed by converting
  \<open>((now - startTime) - recordedDuration) * fps\<close> to \<^verbatim>\<open>size_t\<close> (the fractional part is
  dropped), does not decrease when \<open>now\<close> grows, for every fixed start time, recorded
  duration and positive frame rate, over the instants at which that conversion is
  defined: whenever it is defined at two instants, the later one yields at least as
  many frames.
\<close>

theorem framesToWrite_mono:
  assumes "0 < fps'" and "now1 \<le> now2"
    and "framesToWrite now1 startTime recordedDuration fps' = Some a"
    and "framesToWrite now2 startTime recordedDuration fps' = Some b"
  shows "a \<le> b"
proof -
  have "((now1 - startTime) - recordedDuration) * fps'
          \<le> ((now2 - startTime) - recordedDuration) * fps'"
    using assms(1,2) by (simp add: mult_right_mono)
  then show ?thesis
    using assms(3,4) unfolding framesToWrite_def by (rule size_t_of_float_mono)
qed

theorem framesToWrite_mono_witness:
  "(0::real) < 32 \<and> (3 / 64 :: real) \<le> 1 / 4
   \<and> framesToWrite (3 / 64) 0 (1 / 32) 32 = Some 0
   \<and> framesToWrite (1 / 4) 0 (1 / 32) 32 = Some 7
   \<and> (0 :: size_t) \<le> 7"
proof -
  have p: "(0::real) < 32" by simp
  have l: "(3 / 64 :: real) \<le> 1 / 4" by simp
  have a: "framesToWrite (3 / 64) 0 (1 / 32) 32 = Some 0"
    by (simp add: framesToWrite_def size_t_of_float_def)
  have b: "framesToWrite (1 / 4) 0 (1 / 32) 32 = Some 7"
    by (simp add: framesToWrite_def size_t_of_float_def)
  show ?thesis
    using p l a b framesToWrite_mono [OF p l a b] by simp
qed

text \<open>
  \<open>wantsFrame\<close> does not go back from true to false as time passes, for a recorder
  that does not change and a positive frame rate: at a later instant it answers true
  (or its conversion is undefined), never false.
\<close>

theorem wantsFrame_stays_true:
  assumes "0 < fps (m_settings s)" and "now1 \<le> now2"
    and "wantsFrame now1 s = Inr True"
  shows "wantsFrame now2 s \<noteq> Inr False"
proof
  assume f: "wantsFrame now2 s = Inr False"
  have r: "m_isRecording s \<and> isPipeOpen s"
    using assms(3) by (auto simp: wantsFrame_def split: if_splits)
  obtain a where a: "framesToWrite now1 (m_recordStartTime s) (getRecordedDuration s)
                       (fps (m_settings s)) = Some a"
    and pa: "0 < a"
    using assms(3) r by (auto simp: wantsFrame_def split: option.splits)
  obtain c where c: "framesToWrite now2 (m_recordStartTime s) (getRecordedDuration s)
                       (fps (m_settings s)) = Some c"
    and pc: "\<not> 0 < c"
    using f r by (auto simp: wantsFrame_def split: option.splits)
  have "((now1 - m_recordStartTime s) - getRecordedDuration s) * fps (m_settings s)
          \<le> ((now2 - m_recordStartTime s) - getRecordedDuration s) * fps (m_settings s)"
    using assms(1,2) by (simp add: mult_right_mono)
  then have "a \<le> c"
    using a c unfolding framesToWrite_def by (rule size_t_of_float_mono)
  then show False
    using pa pc by simp
qed

theorem wantsFrame_stays_true_witness:
  "0 < fps (m_settings (after_first tiny_settings)) \<and> (1 / 10 :: real) \<le> 1 / 5
   \<and> wantsFrame (1 / 100) (after_first tiny_settings) = Inr False
   \<and> wantsFrame (1 / 10) (after_first tiny_settings) = Inr True
   \<and> wantsFrame (1 / 5) (after_first tiny_settings) = Inr True
   \<and> wantsFrame (1 / 5) (after_first tiny_settings) \<noteq> Inr False"
proof -
  have p: "0 < fps (m_settings (after_first tiny_settings))"
    by (simp add: example_defs)
  have l: "(1 / 10 :: real) \<le> 1 / 5"
    by simp
  have a: "wantsFrame (1 / 10) (after_first tiny_settings) = Inr True"
    by (simp add: wantsFrame_def example_defs code_defs)
  have b: "wantsFrame (1 / 5) (after_first tiny_settings) = Inr True"
    by (simp add: wantsFrame_def example_defs code_defs)
  have c: "wantsFrame (1 / 100) (after_first tiny_settings) = Inr False"
    by (simp add: wantsFrame_def example_defs code_defs)
  show ?thesis
    using p l a b c wantsFrame_stays_true [OF p l a] by simp
qed

section \<open>The draining thread\<close>

text \<open>
  C5. When the write of a frame fails (\<^verbatim>\<open>fwrite\<close> returns a count other than
  \<open>width * height * 3\<close>, or \<^verbatim>\<open>ferror\<close> reports an error), the thread sets \<^verbatim>\<open>needsQuit\<close>
  and its next three steps are the two tests of \<^verbatim>\<open>needsQuit\<close>, which leave both loops,
  and \<^verbatim>\<open>closePipe\<close>. Whatever the caller's context did to the recorder in between
  (\<open>s2\<close>, \<open>s3\<close>, \<open>s4\<close> are arbitrary), these steps neither take an entry from the queue
  nor write to the pipe; the last one sets the pipe to null and \<^verbatim>\<open>m_isReady\<close> to true.
\<close>

theorem write_failure_ends_drain:
  assumes "pc t = L219"
    and "consume (m_frames s) = Some (pixels, rest)"
    and "fwrite_result e s \<noteq> dataLength (m_settings s) \<or> io_ferror e"
  shows "needsQuit (fst (processFrame_step e t s))
     \<and> pc (fst (processFrame_step e t s)) = L251
     \<and> m_frames (snd (processFrame_step e t s)) = rest
     \<and> (\<forall>e2 s2. processFrame_step e2 (fst (processFrame_step e t s)) s2
                  = ((fst (processFrame_step e t s))\<lparr> pc := L255 \<rparr>, s2))
     \<and> (\<forall>e3 s3. processFrame_step e3 ((fst (processFrame_step e t s))\<lparr> pc := L255 \<rparr>) s3
                  = ((fst (processFrame_step e t s))\<lparr> pc := L262 \<rparr>, s3))
     \<and> (\<forall>e4 s4. processFrame_step e4 ((fst (processFrame_step e t s))\<lparr> pc := L262 \<rparr>) s4
                  = ((fst (processFrame_step e t s))\<lparr> pc := Finished \<rparr>,
                     s4\<lparr> m_ffmpegPipe := None, m_isReady := True \<rparr>))"
proof -
  have f: "write_failed (fwrite_result e s) e s"
    using assms(3) by (auto simp: write_failed_def)
  have st: "processFrame_step e t s =
      (t\<lparr> pc := L251, needsQuit := True, lastFrameTime := io_now e \<rparr>,
       s\<lparr> m_frames := rest,
          piped := (case m_ffmpegPipe s of None \<Rightarrow> piped s
                    | Some f \<Rightarrow> piped s @ [(pixels, fwrite_result e s)]),
          heap := delete_ofPixels pixels (heap s) \<rparr>)"
    using assms(1,2) f by (simp add: processFrame_step_def Let_def)
  show ?thesis
    unfolding st by (simp add: processFrame_step_def closePipe_def)
qed

theorem write_failure_ends_drain_witness:
  "pc at_write = L219
   \<and> consume (m_frames (after_second tiny_settings))
       = Some (red_pixel\<lparr> pix_data := Some 1, pix_owner := False \<rparr>,
               [red_pixel\<lparr> pix_data := Some 2, pix_owner := False \<rparr>,
                red_pixel\<lparr> pix_data := Some 2, pix_owner := True \<rparr>])
   \<and> fwrite_result short_write (after_second tiny_settings) = 1
   \<and> dataLength (m_settings (after_second tiny_settings)) = 3
   \<and> needsQuit (fst (processFrame_step short_write at_write (after_second tiny_settings)))
   \<and> pc (fst (processFrame_step short_write at_write (after_second tiny_settings))) = L251
   \<and> m_frames (snd (processFrame_step short_write at_write (after_second tiny_settings)))
       = [red_pixel\<lparr> pix_data := Some 2, pix_owner := False \<rparr>,
          red_pixel\<lparr> pix_data := Some 2, pix_owner := True \<rparr>]
   \<and> (\<forall>e2 s2. processFrame_step e2
                  (fst (processFrame_step short_write at_write (after_second tiny_settings))) s2
         = ((fst (processFrame_step short_write at_write (after_second tiny_settings)))
              \<lparr> pc := L255 \<rparr>, s2))
   \<and> (\<forall>e3 s3. processFrame_step e3
                  ((fst (processFrame_step short_write at_write (after_second tiny_settings)))
                     \<lparr> pc := L255 \<rparr>) s3
         = ((fst (processFrame_step short_write at_write (after_second tiny_settings)))
              \<lparr> pc := L262 \<rparr>, s3))
   \<and> (\<forall>e4 s4. processFrame_step e4
                  ((fst (processFrame_step short_write at_write (after_second tiny_settings)))
                     \<lparr> pc := L262 \<rparr>) s4
         = ((fst (processFrame_step short_write at_write (after_second tiny_settings)))
              \<lparr> pc := Finished \<rparr>, s4\<lparr> m_ffmpegPipe := None, m_isReady := True \<rparr>))"
proof -
  have a: "pc at_write = L219"
    by (simp add: at_write_def)
  have b: "consume (m_frames (after_second tiny_settings))
       = Some (red_pixel\<lparr> pix_data := Some 1, pix_owner := False \<rparr>,
               [red_pixel\<lparr> pix_data := Some 2, pix_owner := False \<rparr>,
                red_pixel\<lparr> pix_data := Some 2, pix_owner := True \<rparr>])"
    by (simp add: after_second_def consume_def)
  have c: "fwrite_result short_write (after_second tiny_settings) = 1"
    by (simp add: fwrite_result_def short_write_def after_second_def after_first_def recording_def)
  have d: "dataLength (m_settings (after_second tiny_settings)) = 3"
    by (simp add: dataLength_def after_second_def after_first_def recording_def tiny_settings_def)
  have e: "fwrite_result short_write (after_second tiny_settings)
             \<noteq> dataLength (m_settings (after_second tiny_settings)) \<or> io_ferror short_write"
    by (simp add: c d)
  show ?thesis
    using a b c d write_failure_ends_drain [OF a b e] by simp
qed

section \<open>The loop of addFrame\<close>

text \<open>
  The loop is unrolled: as long as its test holds it makes one more pass, and when the
  test fails it returns. With \<^verbatim>\<open>written == 0\<close> at the start it makes
  \<open>addFrame_count\<close> passes, unless \<^verbatim>\<open>framesToWrite\<close> is the largest \<^verbatim>\<open>size_t\<close> and the
  frame counter is 1, where it never ends.
\<close>

lemma loop_exit: "m_nAddedFrames (fst st) \<noteq> 0 \<Longrightarrow> \<not> fst (snd st) < ftw \<Longrightarrow> addFrame_loop clk pixels ftw st = Some st"
  by (subst addFrame_loop.simps) simp

lemma loop_iter: "m_nAddedFrames (fst st) = 0 \<or> fst (snd st) < ftw \<Longrightarrow>
   addFrame_loop clk pixels ftw st = addFrame_loop clk pixels ftw (addFrame_body clk pixels ftw st)"
  by (subst addFrame_loop.simps) simp

lemma loop_unroll:
  "(\<And>i. i < N \<Longrightarrow> m_nAddedFrames (fst ((addFrame_body clk pixels ftw ^^ i) st)) = 0
        \<or> fst (snd ((addFrame_body clk pixels ftw ^^ i) st)) < ftw) \<Longrightarrow>
   addFrame_loop clk pixels ftw st = addFrame_loop clk pixels ftw ((addFrame_body clk pixels ftw ^^ N) st)"
proof (induction N arbitrary: st)
  case 0
  then show ?case by simp
next
  case (Suc N)
  have c0: "m_nAddedFrames (fst st) = 0 \<or> fst (snd st) < ftw"
    using Suc.prems [of 0] by simp
  have "addFrame_loop clk pixels ftw (addFrame_body clk pixels ftw st)
        = addFrame_loop clk pixels ftw ((addFrame_body clk pixels ftw ^^ N) (addFrame_body clk pixels ftw st))"
  proof (rule Suc.IH)
    fix i assume "i < N"
    then show "m_nAddedFrames (fst ((addFrame_body clk pixels ftw ^^ i) (addFrame_body clk pixels ftw st))) = 0
        \<or> fst (snd ((addFrame_body clk pixels ftw ^^ i) (addFrame_body clk pixels ftw st))) < ftw"
      using Suc.prems [of "Suc i"] by (simp add: funpow_swap1)
  qed
  then show ?case
    using c0 by (simp add: loop_iter funpow_swap1)
qed

lemma body_written: "fst (snd (addFrame_body clk pixels ftw st)) = fst (snd st) + 1"
  by (simp add: addFrame_body_def Let_def split: prod.splits option.splits)

lemma body_nAdded: "m_nAddedFrames (fst (addFrame_body clk pixels ftw st)) = m_nAddedFrames (fst st) + 1"
  by (simp add: addFrame_body_def Let_def copy_ofPixels_def split: prod.splits option.splits)

lemma iter_written: "fst (snd ((addFrame_body clk pixels ftw ^^ i) st)) = fst (snd st) + of_nat i"
  by (induction i) (simp_all add: body_written)

lemma iter_nAdded: "m_nAddedFrames (fst ((addFrame_body clk pixels ftw ^^ i) st)) = m_nAddedFrames (fst st) + of_nat i"
  by (induction i) (simp_all add: body_nAdded)

lemma body_Some:
  "addFrame_body clk pixels ftw (s, w, Some p, k) =
     (s\<lparr> m_frames := m_frames s @ [pushed_entry ftw p w], m_nAddedFrames := m_nAddedFrames s + 1,
         m_lastFrameTime := clk k \<rparr>, w + 1, Some p, k + 1)"
  by (simp add: addFrame_body_def pushed_entry_def produce_def Let_def)

lemma body_None:
  "addFrame_body clk pixels ftw (s, w, None, k) =
     addFrame_body clk pixels ftw (snd (copy_ofPixels pixels s), w, Some (fst (copy_ofPixels pixels s)), k)"
  by (simp add: addFrame_body_def split: prod.splits)

lemma copy_frames: "m_frames (snd (copy_ofPixels pixels s)) = m_frames s"
  by (simp add: copy_ofPixels_def split: option.splits)

lemma body_frames:
  "m_frames (fst (addFrame_body clk pixels ftw (s, w, pp, k))) = m_frames s @ [pushed_entry ftw (the_copy pixels s pp) w]"
  by (cases pp) (simp_all add: body_None body_Some the_copy_def copy_frames)

lemma body_pixPtr:
  "snd (snd (addFrame_body clk pixels ftw (s, w, pp, k))) = (Some (the_copy pixels s pp), k + 1)"
  by (cases pp) (simp_all add: body_None body_Some the_copy_def)

lemma iter_frames:
  "m_frames (fst ((addFrame_body clk pixels ftw ^^ i) (s, w, pp, k))) =
     m_frames s @ map (\<lambda>j. pushed_entry ftw (the_copy pixels s pp) (w + of_nat j)) [0..<i]"
proof (induction i arbitrary: s w pp k)
  case 0
  then show ?case by simp
next
  case (Suc i)
  obtain s' where b: "addFrame_body clk pixels ftw (s, w, pp, k) = (s', w + 1, Some (the_copy pixels s pp), k + 1)"
    using body_written [of clk pixels ftw "(s, w, pp, k)"] body_pixPtr [of clk pixels ftw s w pp k]
    by (cases "addFrame_body clk pixels ftw (s, w, pp, k)") auto
  have f: "m_frames s' = m_frames s @ [pushed_entry ftw (the_copy pixels s pp) w]"
    using body_frames [of clk pixels ftw s w pp k] b by simp
  have "map (\<lambda>j. pushed_entry ftw (the_copy pixels s pp) (w + of_nat j)) [0..<Suc i]
        = pushed_entry ftw (the_copy pixels s pp) w # map (\<lambda>j. pushed_entry ftw (the_copy pixels s pp) (w + 1 + of_nat j)) [0..<i]"
    by (simp add: map_upt_Suc add.assoc del: upt_Suc)
  then show ?case
    using Suc.IH [of s' "w + 1" "Some (the_copy pixels s pp)" "k + 1"] b f
    by (simp add: funpow_swap1 the_copy_def del: upt_Suc)
qed


lemma of_nat_less_word: "i < unat (ftw::64 word) \<Longrightarrow> (of_nat i :: 64 word) < ftw"
proof -
  assume a: "i < unat ftw"
  have "unat (of_nat i :: 64 word) \<le> i"
    by (simp add: unat_of_nat)
  then show ?thesis using a by (simp add: word_less_nat_alt)
qed

lemma succ_not_less: "(ftw::64 word) \<noteq> -1 \<Longrightarrow> \<not> ftw + 1 < ftw"
  by (metis add.commute add_eq_0_iff olen_add_eqv verit_comp_simplify1(3) word_less_1)

lemma ucast_max: "(ucast (-1::64 word) :: 32 word) = -1"
  by (rule bit_word_eqI) (simp add: bit_simps)

lemma unat_succ: "(ftw::64 word) \<noteq> -1 \<Longrightarrow> unat (ftw + 1) = unat ftw + 1"
  by (metis Suc_eq_plus1 add.commute add_eq_0_iff unatSuc)

lemma loop_result:
  assumes nd: "ftw \<noteq> -1 \<or> m_nAddedFrames s \<noteq> 1"
  shows "addFrame_loop clk pixels ftw (s, 0, pp, k) =
           Some ((addFrame_body clk pixels ftw ^^ addFrame_count (m_nAddedFrames s) ftw) (s, 0, pp, k))"
proof (cases "m_nAddedFrames s + ucast ftw = 0")
  case False
  let ?st = "(addFrame_body clk pixels ftw ^^ unat ftw) (s, 0, pp, k)"
  have "addFrame_loop clk pixels ftw (s, 0, pp, k) = addFrame_loop clk pixels ftw ?st"
    by (rule loop_unroll) (simp add: iter_written of_nat_less_word)
  moreover have "addFrame_loop clk pixels ftw ?st = Some ?st"
    by (rule loop_exit) (use False in \<open>simp_all add: iter_written iter_nAdded\<close>)
  ultimately show ?thesis
    using False by (simp add: addFrame_count_def)
next
  case True
  have nm: "ftw \<noteq> -1"
    using nd True by (auto simp: ucast_max)
  let ?st = "(addFrame_body clk pixels ftw ^^ (unat ftw + 1)) (s, 0, pp, k)"
  have "addFrame_loop clk pixels ftw (s, 0, pp, k) = addFrame_loop clk pixels ftw ?st"
  proof (rule loop_unroll)
    fix i assume "i < unat ftw + 1"
    then have "i < unat ftw \<or> i = unat ftw" by arith
    then show "m_nAddedFrames (fst ((addFrame_body clk pixels ftw ^^ i) (s, 0, pp, k))) = 0 \<or>
         fst (snd ((addFrame_body clk pixels ftw ^^ i) (s, 0, pp, k))) < ftw"
      using True by (auto simp: iter_written iter_nAdded of_nat_less_word)
  qed
  moreover have "addFrame_loop clk pixels ftw ?st = Some ?st"
  proof (rule loop_exit)
    have "m_nAddedFrames (fst ?st) = (m_nAddedFrames s + ucast ftw) + 1"
      by (simp add: iter_nAdded body_nAdded)
    then show "m_nAddedFrames (fst ?st) \<noteq> 0"
      using True by simp
    have "fst (snd ?st) = ftw + 1"
      by (simp add: iter_written body_written)
    then show "\<not> fst (snd ?st) < ftw"
      using nm by (simp add: succ_not_less)
  qed
  ultimately show ?thesis
    using True by (simp add: addFrame_count_def)
qed

lemma count_word:
  assumes nd: "ftw \<noteq> -1 \<or> n \<noteq> 1"
  shows "unat (of_nat (addFrame_count n ftw) :: 64 word) = addFrame_count n ftw"
proof (cases "n + ucast ftw = 0")
  case False
  then show ?thesis by (simp add: addFrame_count_def)
next
  case True
  have nm: "ftw \<noteq> -1"
    using nd True by (auto simp: ucast_max)
  have "(of_nat (unat ftw + 1) :: 64 word) = ftw + 1"
    by simp
  then show ?thesis
    using True nm by (simp add: addFrame_count_def unat_succ del: of_nat_add of_nat_Suc)
qed

text \<open>
  In the case left out the frame counter is zero again each time \<^verbatim>\<open>written\<close> has come back
  to the largest \<^verbatim>\<open>size_t\<close>, and the loop never ends.
\<close>

lemma mod_succ_cancel:
  assumes "m \<le> n"
  shows "((w::int) + 1) mod 2 ^ n mod 2 ^ m = (w mod 2 ^ n + 1) mod 2 ^ m"
proof -
  have d: "(2::int) ^ m dvd 2 ^ n"
    using assms by (rule le_imp_power_dvd)
  have a: "(w + 1) mod 2 ^ n mod 2 ^ m = (w + 1) mod 2 ^ m"
    using d by (rule mod_mod_cancel)
  have b: "w mod 2 ^ n mod 2 ^ m = w mod 2 ^ m"
    using d by (rule mod_mod_cancel)
  have "(w mod 2 ^ n + 1) mod 2 ^ m = (w mod 2 ^ n mod 2 ^ m + 1) mod 2 ^ m"
    by (rule mod_add_left_eq [symmetric])
  also have "\<dots> = (w mod 2 ^ m + 1) mod 2 ^ m"
    by (simp only: b)
  also have "\<dots> = (w + 1) mod 2 ^ m"
    by (rule mod_add_left_eq)
  finally show ?thesis
    using a by simp
qed

lemma ucast_succ: "(ucast ((w :: 64 word) + 1) :: 32 word) = ucast w + 1"
  apply transfer
  apply (simp only: take_bit_eq_mod)
  apply (rule mod_succ_cancel)
  apply simp
  done

lemma loop_never_ends_aux:
  assumes a: "addFrame_loop clk pixels ftw st = Some st'"
  shows "\<not> (ftw = - 1 \<and> m_nAddedFrames (fst st) = ucast (fst (snd st)) + 1)"
proof (rule addFrame_loop.raw_induct
    [where P = "\<lambda>clk pixels ftw st y. \<not> (ftw = - 1 \<and> m_nAddedFrames (fst st) = ucast (fst (snd st)) + 1)",
      OF _ a])
  fix f :: "(nat \<Rightarrow> real) \<Rightarrow> ofPixels \<Rightarrow> size_t \<Rightarrow> loop_state \<Rightarrow> loop_state option"
  fix clk pixels ftw st y
  assume IH: "\<And>clk pixels ftw st y. f clk pixels ftw st = Some y
                \<Longrightarrow> \<not> (ftw = - 1 \<and> m_nAddedFrames (fst st) = ucast (fst (snd st)) + 1)"
    and eq: "(if m_nAddedFrames (fst st) = 0 \<or> fst (snd st) < ftw
              then f clk pixels ftw (addFrame_body clk pixels ftw st) else Some st) = Some y"
  show "\<not> (ftw = - 1 \<and> m_nAddedFrames (fst st) = ucast (fst (snd st)) + 1)"
  proof (cases "m_nAddedFrames (fst st) = 0 \<or> fst (snd st) < ftw")
    case True
    then have "f clk pixels ftw (addFrame_body clk pixels ftw st) = Some y"
      using eq by simp
    then have "\<not> (ftw = - 1 \<and> m_nAddedFrames (fst (addFrame_body clk pixels ftw st))
                    = ucast (fst (snd (addFrame_body clk pixels ftw st))) + 1)"
      by (rule IH)
    then show ?thesis
      unfolding body_nAdded body_written ucast_succ by (simp add: add.commute)
  next
    case False
    show ?thesis
    proof
      assume o: "ftw = - 1 \<and> m_nAddedFrames (fst st) = ucast (fst (snd st)) + 1"
      then have "\<not> fst (snd st) < - 1"
        using False by simp
      then have "fst (snd st) = - 1"
        by (metis word_order.not_eq_extremum)
      then have "m_nAddedFrames (fst st) = 0"
        using o by (simp add: ucast_max)
      then show False
        using False by simp
    qed
  qed
qed

lemma loop_never_ends:
  assumes "m_nAddedFrames s = 1"
  shows "addFrame_loop clk pixels (- 1) (s, 0, pp, k) = None"
proof (cases "addFrame_loop clk pixels (- 1) (s, 0, pp, k)")
  case None
  then show ?thesis .
next
  case (Some st')
  then show ?thesis
    using loop_never_ends_aux [OF Some] assms by simp
qed

section \<open>addFrame\<close>

lemma first_nAdded: "addFrame_first clk s = Inr (s1, k) \<Longrightarrow> m_nAddedFrames s1 = m_nAddedFrames s \<and> m_frames s1 = m_frames s"
  by (auto simp: addFrame_first_def split: if_splits)

lemma addFrame_runs:
  assumes "m_isRecording s" and "m_ffmpegPipe s \<noteq> None" and "isAllocated pixels"
    and f: "addFrame_first clk s = Inr (s1, k)"
    and c: "framesToWrite (clk k) (m_recordStartTime s1) (getRecordedDuration s1) (fps (m_settings s1)) = Some ftw"
    and nd: "ftw \<noteq> -1 \<or> m_nAddedFrames s \<noteq> 1"
  shows "addFrame clk pixels s =
           Inr (of_nat (addFrame_count (m_nAddedFrames s) ftw),
                fst ((addFrame_body clk pixels ftw ^^ addFrame_count (m_nAddedFrames s) ftw) (s1, 0, None, k + 1)))"
proof -
  have n: "m_nAddedFrames s1 = m_nAddedFrames s"
    using f by (simp add: first_nAdded)
  let ?st = "(addFrame_body clk pixels ftw ^^ addFrame_count (m_nAddedFrames s) ftw) (s1, 0, None, k + 1)"
  have l: "addFrame_loop clk pixels ftw (s1, 0, None, k + 1) = Some ?st"
    using loop_result [of ftw s1 clk pixels None "k + 1"] nd n by simp
  have w: "fst (snd ?st) = of_nat (addFrame_count (m_nAddedFrames s) ftw)"
    by (simp add: iter_written)
  obtain s2 wr pp k' where st: "?st = (s2, wr, pp, k')"
    by (cases ?st) auto
  show ?thesis
    using assms(1-3) f c l w st by (auto simp: addFrame_def)
qed

lemma size_t_of_float_defined:
  "(\<exists>n. size_t_of_float x = Some n) \<longleftrightarrow> - 1 < x \<and> x < 2 ^ 64"
proof (cases "0 \<le> x")
  case True
  have "\<lfloor>x\<rfloor> < 2 ^ 64 \<longleftrightarrow> x < 2 ^ 64"
    using floor_less_iff [of x "2 ^ 64"] by simp
  then show ?thesis
    using True by (simp add: size_t_of_float_def)
next
  case False
  have "0 \<le> \<lceil>x\<rceil> \<longleftrightarrow> - 1 < x"
    using le_ceiling_iff [of 0 x] by simp
  moreover have "\<lceil>x\<rceil> < 2 ^ 64"
  proof -
    have "\<lceil>x\<rceil> \<le> 0" using False by (simp add: ceiling_le_zero)
    then show ?thesis by simp
  qed
  ultimately show ?thesis
    using False by (simp add: size_t_of_float_def)
qed

text \<open>The example recorders are what \<open>start\<close> and \<open>addFrame\<close> make of a fresh recorder.\<close>

lemma addFrame_recording:
  "addFrame (clock_at 0) red_pixel (recording st) = Inr (1, after_first st)"
  by (simp add: example_defs code_defs loop_iter loop_exit)

lemma addFrame_after_first_early:
  "fps st = 30 \<Longrightarrow>
   addFrame (clock_at (1 / 100)) red_pixel (after_first st) = Inr (0, after_first st)"
  by (simp add: example_defs code_defs loop_iter loop_exit)

lemma addFrame_after_first_late:
  "fps st = 30 \<Longrightarrow>
   addFrame (clock_at (1 / 10)) red_pixel (after_first st) = Inr (2, after_second st)"
  by (simp add: example_defs code_defs loop_iter loop_exit)

lemma exec_examples:
  "exec (Start no_file (Some 1) tiny_settings False) fresh_recorder = recording tiny_settings"
  "exec (AddFrame (clock_at 0) red_pixel) (recording tiny_settings) = after_first tiny_settings"
  "exec (AddFrame (clock_at (1 / 10)) red_pixel) (after_first tiny_settings)
     = after_second tiny_settings"
proof -
  have f: "fps tiny_settings = 30" "outputPath tiny_settings \<noteq> []" "ffmpegPath tiny_settings \<noteq> []"
    by (simp_all add: tiny_settings_def RecorderSettings_default_def)
  show "exec (Start no_file (Some 1) tiny_settings False) fresh_recorder = recording tiny_settings"
    by (simp only: exec.simps start_fresh f snd_conv if_False)
  show "exec (AddFrame (clock_at 0) red_pixel) (recording tiny_settings) = after_first tiny_settings"
    by (simp only: exec.simps addFrame_recording) simp
  show "exec (AddFrame (clock_at (1 / 10)) red_pixel) (after_first tiny_settings)
          = after_second tiny_settings"
    by (simp only: exec.simps addFrame_after_first_late [OF f(1)]) simp
qed

lemma examples_reachable:
  "run [Start no_file (Some 1) tiny_settings False, AddFrame (clock_at 0) red_pixel]
     fresh_recorder = after_first tiny_settings"
  "run [Start no_file (Some 1) tiny_settings False, AddFrame (clock_at 0) red_pixel,
        AddFrame (clock_at (1 / 10)) red_pixel] fresh_recorder = after_second tiny_settings"
  by (simp_all only: run.simps exec_examples)

text \<open>
  The scenario of the spec at 30 frames per second: the first frame, added at the
  instant the recording starts, gives one entry and a recorded duration of a thirtieth
  of a second; a second frame a tenth of a second later finds two frames due and gives
  two entries, a view and then the owning copy, and the frame counter becomes 3.
\<close>

theorem scenario_two_frames:
  "run [Start no_file (Some 1) tiny_settings False, AddFrame (clock_at 0) red_pixel]
      fresh_recorder = after_first tiny_settings
   \<and> length (m_frames (after_first tiny_settings)) = 1
   \<and> getRecordedDuration (after_first tiny_settings) = 1 / 30
   \<and> addFrame (clock_at (1 / 10)) red_pixel (after_first tiny_settings)
       = Inr (2, after_second tiny_settings)
   \<and> map pix_owner (drop 1 (m_frames (after_second tiny_settings))) = [False, True]
   \<and> m_nAddedFrames (after_second tiny_settings) = 3"
proof -
  have f: "fps tiny_settings = 30"
    by (simp add: tiny_settings_def RecorderSettings_default_def)
  have "getRecordedDuration (after_first tiny_settings) = 1 / 30"
    by (simp add: getRecordedDuration_def example_defs)
  then show ?thesis
    using examples_reachable(1) addFrame_after_first_late [OF f]
    by (simp add: after_first_def after_second_def red_pixel_def)
qed

text \<open>
  C6. On the first frame of a session (frame counter zero) \<open>addFrame\<close> pushes at least
  one entry and returns a count of at least 1, also when the pacing delta is zero or
  negative. The call returns when no earlier thread is still running (it joins it first)
  and the conversion of \<open>delta * fps\<close> to \<^verbatim>\<open>size_t\<close> is defined, that is, when
  \<open>delta * fps\<close> lies strictly between \<open>-1\<close> and \<open>2 ^ 64\<close>.
\<close>

theorem first_frame_is_queued:
  assumes "m_isRecording s" and "m_ffmpegPipe s \<noteq> None" and "isAllocated pixels"
    and "m_nAddedFrames s = 0" and "\<not> thread_running s"
    and "- 1 < (clk 1 - clk 0) * fps (m_settings s)"
    and "(clk 1 - clk 0) * fps (m_settings s) < 2 ^ 64"
  shows "\<exists>n s'. addFrame clk pixels s = Inr (n, s') \<and> 1 \<le> n
           \<and> length (m_frames s') = length (m_frames s) + unat n"
proof -
  let ?s1 = "s\<lparr> m_thread := Some thread_new, m_recordStartTime := clk 0, m_lastFrameTime := clk 0 \<rparr>"
  have f: "addFrame_first clk s = Inr (?s1, 1)"
    using assms(4,5) by (simp add: addFrame_first_def)
  obtain ftw where c: "size_t_of_float ((clk 1 - clk 0) * fps (m_settings s)) = Some ftw"
    using assms(6,7) size_t_of_float_defined [of "(clk 1 - clk 0) * fps (m_settings s)"] by auto
  have c': "framesToWrite (clk 1) (m_recordStartTime ?s1) (getRecordedDuration ?s1) (fps (m_settings ?s1)) = Some ftw"
    using c assms(4) by (simp add: framesToWrite_def getRecordedDuration_def)
  have nd: "ftw \<noteq> -1 \<or> m_nAddedFrames s \<noteq> 1"
    using assms(4) by simp
  let ?N = "addFrame_count (m_nAddedFrames s) ftw"
  let ?st = "(addFrame_body clk pixels ftw ^^ ?N) (?s1, 0, None, 1 + 1)"
  have r: "addFrame clk pixels s = Inr (of_nat ?N, fst ?st)"
    by (rule addFrame_runs [OF assms(1-3) f c' nd])
  have u: "unat (of_nat ?N :: size_t) = ?N"
    by (rule count_word [OF nd])
  have p: "1 \<le> ?N"
  proof (cases "ftw = 0")
    case True
    then show ?thesis using assms(4) by (simp add: addFrame_count_def)
  next
    case False
    then have "1 \<le> unat ftw"
      using word_eq_iff_unsigned by fastforce
    then show ?thesis by (simp add: addFrame_count_def)
  qed
  have "1 \<le> (of_nat ?N :: size_t)"
    using u p by (simp add: word_le_nat_alt)
  moreover have "length (m_frames (fst ?st)) = length (m_frames s) + unat (of_nat ?N :: size_t)"
    unfolding u by (simp add: iter_frames)
  ultimately show ?thesis
    using r by blast
qed


theorem first_frame_is_queued_witness:
  "m_isRecording (recording tiny_settings)
   \<and> m_ffmpegPipe (recording tiny_settings) \<noteq> None
   \<and> isAllocated red_pixel
   \<and> m_nAddedFrames (recording tiny_settings) = 0
   \<and> \<not> thread_running (recording tiny_settings)
   \<and> (clock_back 1 - clock_back 0) * fps (m_settings (recording tiny_settings)) = - 3 / 10
   \<and> (\<exists>n s'. addFrame clock_back red_pixel (recording tiny_settings) = Inr (n, s') \<and> 1 \<le> n
          \<and> length (m_frames s') = length (m_frames (recording tiny_settings)) + unat n)"
proof -
  have a: "m_isRecording (recording tiny_settings)"
    by (simp add: recording_def)
  have b: "m_ffmpegPipe (recording tiny_settings) \<noteq> None"
    by (simp add: recording_def)
  have c: "isAllocated red_pixel"
    by (simp add: isAllocated_def red_pixel_def)
  have d: "m_nAddedFrames (recording tiny_settings) = 0"
    by (simp add: example_defs)
  have e: "\<not> thread_running (recording tiny_settings)"
    by (simp add: thread_running_def example_defs)
  have f: "(clock_back 1 - clock_back 0) * fps (m_settings (recording tiny_settings)) = - 3 / 10"
    by (simp add: example_defs)
  have g: "- 1 < (clock_back 1 - clock_back 0) * fps (m_settings (recording tiny_settings))"
    unfolding f by simp
  have h: "(clock_back 1 - clock_back 0) * fps (m_settings (recording tiny_settings)) < 2 ^ 64"
    unfolding f by simp
  show ?thesis
    using a b c d e f first_frame_is_queued [OF a b c d e g h] by simp
qed

subsection \<open>What a call that returns has pushed\<close>

lemma loop_returns_iterate:
  assumes a: "addFrame_loop clk pixels ftw st = Some st'"
  shows "\<exists>N. st' = (addFrame_body clk pixels ftw ^^ N) st"
proof (rule addFrame_loop.raw_induct
    [where P = "\<lambda>clk pixels ftw st y. \<exists>N. y = (addFrame_body clk pixels ftw ^^ N) st", OF _ a])
  fix f :: "(nat \<Rightarrow> real) \<Rightarrow> ofPixels \<Rightarrow> size_t \<Rightarrow> loop_state \<Rightarrow> loop_state option"
  fix clk pixels ftw st y
  assume IH: "\<And>clk pixels ftw st y. f clk pixels ftw st = Some y
                \<Longrightarrow> \<exists>N. y = (addFrame_body clk pixels ftw ^^ N) st"
    and eq: "(if m_nAddedFrames (fst st) = 0 \<or> fst (snd st) < ftw
              then f clk pixels ftw (addFrame_body clk pixels ftw st) else Some st) = Some y"
  show "\<exists>N. y = (addFrame_body clk pixels ftw ^^ N) st"
  proof (cases "m_nAddedFrames (fst st) = 0 \<or> fst (snd st) < ftw")
    case True
    then have "f clk pixels ftw (addFrame_body clk pixels ftw st) = Some y"
      using eq by simp
    then obtain N where "y = (addFrame_body clk pixels ftw ^^ N) (addFrame_body clk pixels ftw st)"
      using IH by blast
    then have "y = (addFrame_body clk pixels ftw ^^ Suc N) st"
      by (simp add: funpow_swap1)
    then show ?thesis by blast
  next
    case False
    then have "y = (addFrame_body clk pixels ftw ^^ 0) st"
      using eq by simp
    then show ?thesis by blast
  qed
qed

lemma pushed_entry_dims:
  "pix_width (pushed_entry ftw p w) = pix_width p \<and> pix_height (pushed_entry ftw p w) = pix_height p
   \<and> pix_format (pushed_entry ftw p w) = pix_format p \<and> pix_data (pushed_entry ftw p w) = pix_data p"
  by (simp add: pushed_entry_def setFromExternalPixels_def)

lemma the_copy_dims:
  "pix_width (the_copy pixels s None) = pix_width pixels \<and> pix_height (the_copy pixels s None) = pix_height pixels
   \<and> pix_format (the_copy pixels s None) = pix_format pixels"
  by (simp add: the_copy_def copy_ofPixels_def split: option.splits)

lemma addFrame_returns_iterate:
  assumes "addFrame clk pixels s = Inr (n, s')"
  shows "\<exists>N ftw. m_frames s' = m_frames s @ map (\<lambda>j. pushed_entry ftw (the_copy pixels s None) (of_nat j)) [0..<N]"
proof (cases "m_isRecording s \<and> m_ffmpegPipe s \<noteq> None \<and> isAllocated pixels")
  case False
  then have "s' = s"
    using assms by (auto simp: addFrame_def split: if_splits)
  then have "m_frames s' = m_frames s @ map (\<lambda>j. pushed_entry 0 (the_copy pixels s None) (of_nat j)) [0..<0]"
    by simp
  then show ?thesis by blast
next
  case True
  then obtain s1 k ftw st' where f: "addFrame_first clk s = Inr (s1, k)"
    and l: "addFrame_loop clk pixels ftw (s1, 0, None, k + 1) = Some st'" and s': "s' = fst st'"
    using assms by (auto simp: addFrame_def split: if_splits sum.splits option.splits prod.splits)
  obtain N where N: "st' = (addFrame_body clk pixels ftw ^^ N) (s1, 0, None, k + 1)"
    using loop_returns_iterate [OF l] by blast
  have c: "the_copy pixels s1 None = the_copy pixels s None"
    using f by (auto simp: addFrame_first_def the_copy_def copy_ofPixels_def split: if_splits option.splits)
  have "m_frames s' = m_frames s @ map (\<lambda>j. pushed_entry ftw (the_copy pixels s None) (of_nat j)) [0..<N]"
    using first_nAdded [OF f] by (simp add: s' N iter_frames c)
  then show ?thesis by blast
qed

lemma example_facts:
  "m_isRecording (recording st)" "m_ffmpegPipe (recording st) \<noteq> None"
  "m_isRecording (after_first st)" "m_ffmpegPipe (after_first st) \<noteq> None"
  "isAllocated red_pixel" "\<not> isAllocated empty_frame"
  by (simp_all add: example_defs isAllocated_def)

text \<open>
  C1 says that every call of \<open>addFrame\<close> made while recording, with a valid pipe and
  allocated pixels, pushes at least one entry, also when no frame is due for a frame
  that is not the first. The loop of line 170 is not entered then (its comment reads
  \<^verbatim>\<open>drop or duplicate frames to maintain constant framerate\<close>): a second frame that
  arrives a hundredth of a second after the first, at 30 frames per second, is dropped;
  the call returns 0 and the recorder is as before.
\<close>

theorem frame_not_due_is_dropped:
  "m_isRecording (after_first tiny_settings)
   \<and> m_ffmpegPipe (after_first tiny_settings) \<noteq> None
   \<and> isAllocated red_pixel
   \<and> m_nAddedFrames (after_first tiny_settings) = 1
   \<and> addFrame_due (clock_at (1 / 100)) (after_first tiny_settings) = Some 0
   \<and> addFrame (clock_at (1 / 100)) red_pixel (after_first tiny_settings)
       = Inr (0, after_first tiny_settings)"
proof -
  have f: "fps tiny_settings = 30"
    by (simp add: tiny_settings_def RecorderSettings_default_def)
  have "m_nAddedFrames (after_first tiny_settings) = 1"
    by (simp add: after_first_def)
  moreover have "addFrame_due (clock_at (1 / 100)) (after_first tiny_settings) = Some 0"
    by (simp add: addFrame_due_def example_defs code_defs)
  ultimately show ?thesis
    using example_facts(3-5) addFrame_after_first_early [OF f] by simp
qed

text \<open>
  C1, amended. For every call of \<open>addFrame\<close> made while recording, with a valid pipe and
  allocated pixels, that reaches the pacing computation with a defined number \<open>ftw\<close> of
  frames due (other than the largest \<^verbatim>\<open>size_t\<close>), the call returns and the returned
  count is the number of entries pushed. At least one entry is pushed when the frame is
  the first of the session or when \<open>ftw\<close> is not zero; when \<open>ftw\<close> is zero for a frame
  that is not the first, nothing is pushed, 0 is returned and the recorder is unchanged.
\<close>

theorem addFrame_pushes_its_count:
  assumes "m_isRecording s" and "m_ffmpegPipe s \<noteq> None" and "isAllocated pixels"
    and "addFrame_due clk s = Some ftw" and "ftw \<noteq> - 1"
  shows "\<exists>n s'. addFrame clk pixels s = Inr (n, s')
           \<and> length (m_frames s') = length (m_frames s) + unat n
           \<and> (if m_nAddedFrames s = 0 \<or> ftw \<noteq> 0 then 1 \<le> n else n = 0 \<and> s' = s)"
proof -
  obtain s1 k where f: "addFrame_first clk s = Inr (s1, k)"
    and c: "framesToWrite (clk k) (m_recordStartTime s1) (getRecordedDuration s1) (fps (m_settings s1)) = Some ftw"
    using assms(4) by (auto simp: addFrame_due_def split: sum.splits)
  have nd: "ftw \<noteq> -1 \<or> m_nAddedFrames s \<noteq> 1"
    using assms(5) by simp
  let ?N = "addFrame_count (m_nAddedFrames s) ftw"
  let ?st = "(addFrame_body clk pixels ftw ^^ ?N) (s1, 0, None, k + 1)"
  have r: "addFrame clk pixels s = Inr (of_nat ?N, fst ?st)"
    by (rule addFrame_runs [OF assms(1-3) f c nd])
  have u: "unat (of_nat ?N :: size_t) = ?N"
    by (rule count_word [OF nd])
  have len: "length (m_frames (fst ?st)) = length (m_frames s) + unat (of_nat ?N :: size_t)"
    unfolding u using first_nAdded [OF f] by (simp add: iter_frames)
  have cnt: "if m_nAddedFrames s = 0 \<or> ftw \<noteq> 0 then 1 \<le> (of_nat ?N :: size_t)
             else (of_nat ?N :: size_t) = 0 \<and> fst ?st = s"
  proof (cases "m_nAddedFrames s = 0 \<or> ftw \<noteq> 0")
    case True
    have "1 \<le> ?N"
    proof (cases "ftw = 0")
      case True
      then show ?thesis using \<open>m_nAddedFrames s = 0 \<or> ftw \<noteq> 0\<close> by (simp add: addFrame_count_def)
    next
      case False
      then have "1 \<le> unat ftw"
        using word_eq_iff_unsigned by fastforce
      then show ?thesis by (simp add: addFrame_count_def)
    qed
    then have "1 \<le> (of_nat ?N :: size_t)"
      using u by (simp add: word_le_nat_alt)
    then show ?thesis using True by simp
  next
    case False
    then have z: "?N = 0"
      by (simp add: addFrame_count_def)
    have "s1 = s"
      using f False by (auto simp: addFrame_first_def split: if_splits)
    then show ?thesis using False z by simp
  qed
  show ?thesis
    using r len cnt by blast
qed

theorem addFrame_pushes_its_count_witness:
  "m_isRecording (after_first tiny_settings)
   \<and> m_ffmpegPipe (after_first tiny_settings) \<noteq> None
   \<and> isAllocated red_pixel
   \<and> addFrame_due (clock_at (1 / 10)) (after_first tiny_settings) = Some 2
   \<and> (2 :: size_t) \<noteq> - 1
   \<and> addFrame (clock_at (1 / 10)) red_pixel (after_first tiny_settings)
       = Inr (2, after_second tiny_settings)
   \<and> (\<exists>n s'. addFrame (clock_at (1 / 10)) red_pixel (after_first tiny_settings) = Inr (n, s')
         \<and> length (m_frames s') = length (m_frames (after_first tiny_settings)) + unat n
         \<and> (if m_nAddedFrames (after_first tiny_settings) = 0 \<or> (2 :: size_t) \<noteq> 0
             then 1 \<le> n else n = 0 \<and> s' = after_first tiny_settings))"
proof -
  have f: "fps tiny_settings = 30"
    by (simp add: tiny_settings_def RecorderSettings_default_def)
  have d: "addFrame_due (clock_at (1 / 10)) (after_first tiny_settings) = Some 2"
    by (simp add: addFrame_due_def example_defs code_defs)
  have m: "(2 :: size_t) \<noteq> - 1"
    by simp
  show ?thesis
    using example_facts(3-5) d m addFrame_after_first_late [OF f]
      addFrame_pushes_its_count [OF example_facts(3-5) d m]
    by simp
qed

text \<open>
  C4 says that \<open>addFrame\<close> rejects a frame whose dimensions differ from the configured
  resolution. \<open>addFrame\<close> never looks at the dimensions: with the default resolution of
  640 by 480, a frame of one pixel is accepted and its entry is queued.
\<close>

theorem mismatched_frame_is_queued:
  "videoResolution (m_settings (recording RecorderSettings_default)) = (640, 480)
   \<and> pix_width red_pixel = 1 \<and> pix_height red_pixel = 1
   \<and> addFrame (clock_at 0) red_pixel (recording RecorderSettings_default)
       = Inr (1, after_first RecorderSettings_default)
   \<and> map pix_width (m_frames (after_first RecorderSettings_default)) = [1]
   \<and> map pix_height (m_frames (after_first RecorderSettings_default)) = [1]"
  using addFrame_recording [of RecorderSettings_default]
  by (simp add: example_defs)

text \<open>
  C4, amended. \<open>addFrame\<close> rejects (returns 0 for, leaving the recorder unchanged) every
  frame with unallocated pixel data. It does not compare dimensions with the configured
  resolution: every entry a call pushes has the width and height of the submitted frame.
\<close>

theorem addFrame_checks_allocation_only:
  "(\<not> isAllocated pixels \<longrightarrow> addFrame clk pixels s = Inr (0, s))
   \<and> (addFrame clk pixels s = Inr (n, s') \<longrightarrow>
        (\<exists>new. m_frames s' = m_frames s @ new
           \<and> (\<forall>e \<in> set new. pix_width e = pix_width pixels \<and> pix_height e = pix_height pixels)))"
proof (intro conjI impI)
  assume "\<not> isAllocated pixels"
  then show "addFrame clk pixels s = Inr (0, s)"
    by (simp add: addFrame_def)
next
  assume "addFrame clk pixels s = Inr (n, s')"
  then obtain N ftw where
    "m_frames s' = m_frames s @ map (\<lambda>j. pushed_entry ftw (the_copy pixels s None) (of_nat j)) [0..<N]"
    using addFrame_returns_iterate by blast
  moreover have "\<forall>e \<in> set (map (\<lambda>j. pushed_entry ftw (the_copy pixels s None) (of_nat j)) [0..<N]).
      pix_width e = pix_width pixels \<and> pix_height e = pix_height pixels"
    by (simp add: pushed_entry_dims the_copy_dims)
  ultimately show "\<exists>new. m_frames s' = m_frames s @ new
           \<and> (\<forall>e \<in> set new. pix_width e = pix_width pixels \<and> pix_height e = pix_height pixels)"
    by blast
qed

theorem addFrame_checks_allocation_only_witness:
  "\<not> isAllocated empty_frame
   \<and> addFrame (clock_at 0) empty_frame (recording tiny_settings) = Inr (0, recording tiny_settings)
   \<and> addFrame (clock_at 0) red_pixel (recording RecorderSettings_default)
       = Inr (1, after_first RecorderSettings_default)
   \<and> (\<exists>new. m_frames (after_first RecorderSettings_default)
               = m_frames (recording RecorderSettings_default) @ new
         \<and> (\<forall>e \<in> set new. pix_width e = pix_width red_pixel \<and> pix_height e = pix_height red_pixel))"
proof -
  have a: "addFrame (clock_at 0) red_pixel (recording RecorderSettings_default)
       = Inr (1, after_first RecorderSettings_default)"
    by (rule addFrame_recording)
  have b: "addFrame (clock_at 0) empty_frame (recording tiny_settings) = Inr (0, recording tiny_settings)"
    using addFrame_checks_allocation_only [of empty_frame "clock_at 0" "recording tiny_settings"]
      example_facts(6) by simp
  show ?thesis
    using a b example_facts(6)
      addFrame_checks_allocation_only [of red_pixel "clock_at 0" "recording RecorderSettings_default"
        1 "after_first RecorderSettings_default"]
    by simp
qed

subsection \<open>Which entry owns the pixels\<close>

lemma addFrame_entries:
  assumes "m_isRecording s" and "m_ffmpegPipe s \<noteq> None" and "isAllocated pixels"
    and "addFrame_due clk s = Some ftw" and "ftw \<noteq> - 1"
  shows "\<exists>s'. addFrame clk pixels s = Inr (of_nat (addFrame_count (m_nAddedFrames s) ftw), s')
     \<and> m_frames s' = m_frames s @ map (\<lambda>j. pushed_entry ftw (the_copy pixels s None) (of_nat j))
                                     [0..<addFrame_count (m_nAddedFrames s) ftw]"
proof -
  obtain s1 k where f: "addFrame_first clk s = Inr (s1, k)"
    and c: "framesToWrite (clk k) (m_recordStartTime s1) (getRecordedDuration s1) (fps (m_settings s1)) = Some ftw"
    using assms(4) by (auto simp: addFrame_due_def split: sum.splits)
  have nd: "ftw \<noteq> -1 \<or> m_nAddedFrames s \<noteq> 1"
    using assms(5) by simp
  have cp: "the_copy pixels s1 None = the_copy pixels s None"
    using f by (auto simp: addFrame_first_def the_copy_def copy_ofPixels_def split: if_splits option.splits)
  show ?thesis
    using addFrame_runs [OF assms(1-3) f c nd] first_nAdded [OF f]
    by (simp add: iter_frames cp)
qed

lemma of_nat_eq_pred:
  fixes ftw :: size_t
  assumes "ftw \<noteq> 0" and "j < unat ftw"
  shows "(of_nat j = ftw - 1) \<longleftrightarrow> j = unat ftw - 1"
proof -
  have a: "unat (ftw - 1) = unat ftw - 1"
    using assms(1) by (simp add: unat_minus_one)
  have "unat ftw < 2 ^ LENGTH(64)"
    by (rule unsigned_less)
  then have "j < 2 ^ 64"
    using assms(2) by simp
  then have b: "unat (of_nat j :: size_t) = j"
    by (simp add: unat_of_nat)
  show ?thesis
  proof
    assume "of_nat j = ftw - 1"
    then have "unat (of_nat j :: size_t) = unat (ftw - 1)" by simp
    then show "j = unat ftw - 1" using a b by simp
  next
    assume "j = unat ftw - 1"
    then have "(of_nat j :: size_t) = of_nat (unat (ftw - 1))" using a by simp
    then show "of_nat j = ftw - 1" by simp
  qed
qed

text \<open>
  When at least one frame is due (and the 32-bit frame counter does not reach zero
  with the last of them), the call pushes exactly that many entries: views of the one
  copy of the submitted pixels, then, last, the copy itself, which owns the bytes.
\<close>

theorem owning_copy_is_last:
  assumes "m_isRecording s" and "m_ffmpegPipe s \<noteq> None" and "isAllocated pixels"
    and "addFrame_due clk s = Some ftw" and "ftw \<noteq> - 1" and "ftw \<noteq> 0"
    and "m_nAddedFrames s + ucast ftw \<noteq> 0"
  shows "\<exists>s'. addFrame clk pixels s = Inr (ftw, s')
     \<and> m_frames s' = m_frames s
          @ replicate (unat ftw - 1) ((the_copy pixels s None)\<lparr> pix_owner := False \<rparr>)
          @ [the_copy pixels s None]"
proof -
  let ?p = "the_copy pixels s None"
  have N: "addFrame_count (m_nAddedFrames s) ftw = unat ftw"
    using assms(7) by (simp add: addFrame_count_def)
  have pos: "0 < unat ftw"
    using assms(6) by (simp add: unat_gt_0)
  have v: "setFromExternalPixels (pix_data ?p) (pix_width ?p) (pix_height ?p) (pix_format ?p)
             = ?p\<lparr> pix_owner := False \<rparr>"
    by (simp add: setFromExternalPixels_def)
  have e: "map (\<lambda>j. pushed_entry ftw ?p (of_nat j)) [0..<unat ftw]
           = replicate (unat ftw - 1) (?p\<lparr> pix_owner := False \<rparr>) @ [?p]"
  proof -
    have "[0..<unat ftw] = [0..<unat ftw - 1] @ [unat ftw - 1]"
      using pos by (cases "unat ftw") simp_all
    moreover have "map (\<lambda>j. pushed_entry ftw ?p (of_nat j)) [0..<unat ftw - 1]
                   = replicate (unat ftw - 1) (?p\<lparr> pix_owner := False \<rparr>)"
    proof -
      have "\<And>j. j \<in> set [0..<unat ftw - 1] \<Longrightarrow> pushed_entry ftw ?p (of_nat j) = ?p\<lparr> pix_owner := False \<rparr>"
        using of_nat_eq_pred [OF assms(6)] by (simp add: pushed_entry_def v)
      then have "map (\<lambda>j. pushed_entry ftw ?p (of_nat j)) [0..<unat ftw - 1]
                 = map (\<lambda>j. ?p\<lparr> pix_owner := False \<rparr>) [0..<unat ftw - 1]"
        by (simp only: map_eq_conv) blast
      then show ?thesis by (simp add: map_replicate_const)
    qed
    moreover have "pushed_entry ftw ?p (of_nat (unat ftw - 1)) = ?p"
      using of_nat_eq_pred [OF assms(6), of "unat ftw - 1"] pos by (simp add: pushed_entry_def)
    ultimately show ?thesis by simp
  qed
  show ?thesis
    using addFrame_entries [OF assms(1-5)] by (simp add: N e)
qed

theorem owning_copy_is_last_witness:
  "m_isRecording (after_first tiny_settings)
   \<and> m_ffmpegPipe (after_first tiny_settings) \<noteq> None
   \<and> isAllocated red_pixel
   \<and> addFrame_due (clock_at (1 / 10)) (after_first tiny_settings) = Some 2
   \<and> (2 :: size_t) \<noteq> - 1 \<and> (2 :: size_t) \<noteq> 0
   \<and> m_nAddedFrames (after_first tiny_settings) + ucast (2 :: size_t) = 3
   \<and> the_copy red_pixel (after_first tiny_settings) None = red_pixel\<lparr> pix_data := Some 2 \<rparr>
   \<and> (\<exists>s'. addFrame (clock_at (1 / 10)) red_pixel (after_first tiny_settings) = Inr (2, s')
         \<and> m_frames s' = m_frames (after_first tiny_settings)
              @ replicate (unat (2 :: size_t) - 1)
                  ((the_copy red_pixel (after_first tiny_settings) None)\<lparr> pix_owner := False \<rparr>)
              @ [the_copy red_pixel (after_first tiny_settings) None])"
proof -
  have d: "addFrame_due (clock_at (1 / 10)) (after_first tiny_settings) = Some 2"
    by (simp add: addFrame_due_def example_defs code_defs)
  have m: "(2 :: size_t) \<noteq> - 1" and z: "(2 :: size_t) \<noteq> 0"
    by simp_all
  have n: "m_nAddedFrames (after_first tiny_settings) + ucast (2 :: size_t) = 3"
    by (simp add: after_first_def)
  have n': "m_nAddedFrames (after_first tiny_settings) + ucast (2 :: size_t) \<noteq> 0"
    unfolding n by simp
  have c: "the_copy red_pixel (after_first tiny_settings) None = red_pixel\<lparr> pix_data := Some 2 \<rparr>"
    by (simp add: the_copy_def copy_ofPixels_def example_defs)
  show ?thesis
    using example_facts(3-5) d m z n c owning_copy_is_last [OF example_facts(3-5) d m z n']
    by simp
qed

lemma first_frame_nothing_due:
  assumes "m_isRecording s" and "m_ffmpegPipe s \<noteq> None" and "isAllocated pixels"
    and "addFrame_due clk s = Some 0" and "m_nAddedFrames s = 0"
  shows "\<exists>s'. addFrame clk pixels s = Inr (1, s')
     \<and> m_frames s' = m_frames s @ [(the_copy pixels s None)\<lparr> pix_owner := False \<rparr>]"
proof -
  let ?p = "the_copy pixels s None"
  have m: "(0 :: size_t) \<noteq> - 1" by simp
  have v: "setFromExternalPixels (pix_data ?p) (pix_width ?p) (pix_height ?p) (pix_format ?p)
             = ?p\<lparr> pix_owner := False \<rparr>"
    by (simp add: setFromExternalPixels_def)
  show ?thesis
    using addFrame_entries [OF assms(1-4) m] assms(5)
    by (simp add: addFrame_count_def pushed_entry_def v)
qed

text \<open>
  C2 says that the last entry of every submission owns the copy of the pixels, also when
  a single entry is pushed for the first frame of a session. Line 176 compares
  \<^verbatim>\<open>written\<close> with \<^verbatim>\<open>framesToWrite - 1\<close>, which for \<^verbatim>\<open>framesToWrite == 0\<close> is the
  largest \<^verbatim>\<open>size_t\<close>, not \<open>0\<close>. A first frame added at the instant the recording
  starts has no frame due, the loop makes its one pass because the counter is zero, and
  the entry pushed is a view; the copy it refers to is owned by no entry and is never
  released.
\<close>

theorem first_frame_entry_is_a_view:
  "m_nAddedFrames (recording tiny_settings) = 0
   \<and> addFrame_due (clock_at 0) (recording tiny_settings) = Some 0
   \<and> addFrame (clock_at 0) red_pixel (recording tiny_settings) = Inr (1, after_first tiny_settings)
   \<and> m_frames (recording tiny_settings) = []
   \<and> m_frames (after_first tiny_settings) = [red_pixel\<lparr> pix_data := Some 1, pix_owner := False \<rparr>]
   \<and> map pix_owner (m_frames (after_first tiny_settings)) = [False]"
proof -
  have "addFrame_due (clock_at 0) (recording tiny_settings) = Some 0"
    by (simp add: addFrame_due_def example_defs code_defs)
  then show ?thesis
    using addFrame_recording [of tiny_settings] by (simp add: example_defs)
qed

section \<open>stop and the draining thread\<close>

text \<open>
  A thread that stands at the test of its outer loop when the recorder is not recording
  closes the pipe with its next two steps and leaves the queue as it is.
\<close>

lemma outer_test_after_stop:
  assumes "m_thread s = Some t" and "pc t = L201" and "\<not> m_isRecording s"
  shows "run [Step e1, Step e2] s
           = s\<lparr> m_thread := Some (t\<lparr> pc := Finished \<rparr>), m_ffmpegPipe := None,
                 m_isReady := True \<rparr>"
  using assms by (simp add: thread_step_def processFrame_step_def closePipe_def)

text \<open>
  C7 says that every frame queued before \<open>stop\<close> is still written to the pipe before the
  pipe is closed. The thread leaves its outer loop at line 201 as soon as it finds
  \<^verbatim>\<open>m_isRecording\<close> false, without looking at the queue: only the inner loop of line 208
  keeps going after \<open>stop\<close>. When \<open>stop\<close> is called right after the first frame has been
  added, before the thread created by that call has made its first test, the thread
  goes straight to \<^verbatim>\<open>closePipe\<close>: the frame is still in the queue, nothing has been
  written, and the pipe is closed.
\<close>

theorem stop_at_once_loses_the_frame:
  "m_frames (run stop_at_once fresh_recorder) = [red_pixel\<lparr> pix_data := Some 1, pix_owner := False \<rparr>]
   \<and> piped (run stop_at_once fresh_recorder) = []
   \<and> m_thread (run stop_at_once fresh_recorder) = Some (thread_new\<lparr> pc := Finished \<rparr>)
   \<and> m_ffmpegPipe (run stop_at_once fresh_recorder) = None
   \<and> m_isReady (run stop_at_once fresh_recorder)"
proof -
  have "run stop_at_once fresh_recorder
          = run [Stop, Step on_time, Step on_time] (after_first tiny_settings)"
    unfolding stop_at_once_def by (simp only: run.simps exec_examples)
  also have "\<dots> = (after_first tiny_settings)\<lparr> m_isRecording := False, m_isReady := True,
       m_ffmpegPipe := None, m_thread := Some (thread_new\<lparr> pc := Finished \<rparr>) \<rparr>"
    by (simp add: example_defs code_defs)
  finally show ?thesis
    by (simp add: example_defs)
qed

subsection \<open>A thread inside its inner loop\<close>

lemma draining_step:
  assumes "draining_inv W st s" and "written_ok e st"
  shows "draining_inv W st (thread_step e s)"
proof -
  obtain t where t: "m_thread s = Some t"
    using assms(1) by (auto simp: draining_inv_def split: option.splits)
  have st: "m_settings s = st"
    using assms(1) by (simp add: draining_inv_def)
  have ok: "\<not> write_failed (io_fwrite e) e s"
    using assms(2) st by (auto simp: written_ok_def write_failed_def)
  show ?thesis
  proof (cases "pc t")
    case L219
    show ?thesis
    proof (cases "m_frames s")
      case Nil
      then show ?thesis
        using assms(1) t L219 by (simp add: draining_inv_def thread_step_def processFrame_step_def consume_def)
    next
      case (Cons p rest)
      then show ?thesis
        using assms(1) t L219 ok
        by (auto simp: draining_inv_def thread_step_def processFrame_step_def consume_def
            fwrite_result_def Let_def)
    qed
  next
    case L208
    then show ?thesis
      using assms(1) t
      by (auto simp: draining_inv_def thread_step_def processFrame_step_def numFramesInQueue_def)
  qed (use assms(1) t in \<open>auto simp: draining_inv_def thread_step_def processFrame_step_def closePipe_def\<close>)
qed

lemma draining_run:
  assumes "draining_inv W st s" and "\<forall>e \<in> set es. written_ok e st"
  shows "draining_inv W st (run (map Step es) s)"
  using assms
proof (induction es arbitrary: s)
  case Nil
  then show ?case by simp
next
  case (Cons e es)
  have a: "draining_inv W st (thread_step e s)"
    using Cons.prems by (simp add: draining_step)
  show ?case
    using Cons.IH [OF a] Cons.prems(2) by simp
qed

text \<open>
  A thread that stands at the test of its inner loop (line 208), is not asked to
  quit and whose writes all succeed closes the pipe only once every queued entry has
  been written, in queue order, whether or not \<open>stop\<close> has been called: if the thread,
  running on its own, has finished, the queue is empty and what went through the pipe is
  what had gone before followed by the queue.
\<close>

theorem inner_loop_drains_before_close:
  assumes "m_thread s = Some t" and "pc t = L208" and "\<not> needsQuit t"
    and "\<not> m_shouldQuitProcessing s" and "m_ffmpegPipe s \<noteq> None"
    and "\<forall>e \<in> set es. written_ok e (m_settings s)"
    and "m_thread (run (map Step es) s) = Some t'" and "pc t' = Finished"
  shows "m_frames (run (map Step es) s) = []
         \<and> map fst (piped (run (map Step es) s)) = map fst (piped s) @ m_frames s"
proof -
  have i: "draining_inv (map fst (piped s) @ m_frames s) (m_settings s) s"
    using assms(1-5) by (simp add: draining_inv_def)
  have "draining_inv (map fst (piped s) @ m_frames s) (m_settings s) (run (map Step es) s)"
    using draining_run [OF i] assms(6) by simp
  then show ?thesis
    using assms(7,8) by (simp add: draining_inv_def)
qed

lemma drain_example:
  "run (map Step drain_schedule) stopped_with_queue
     = stopped_with_queue\<lparr> m_isReady := True, m_ffmpegPipe := None,
         m_thread := Some (in_inner_loop\<lparr> pc := Finished, lastFrameTime := 3 \<rparr>),
         m_frames := [],
         heap := (\<lambda>a. None)(0 := Some [255, 0, 0], 1 := Some [255, 0, 0]),
         piped := [(red_pixel\<lparr> pix_data := Some 1, pix_owner := False \<rparr>, 3),
                   (red_pixel\<lparr> pix_data := Some 2, pix_owner := False \<rparr>, 3),
                   (red_pixel\<lparr> pix_data := Some 2, pix_owner := True \<rparr>, 3)] \<rparr>"
  by (simp add: drain_schedule_def stopped_with_queue_def tick_def in_inner_loop_def example_defs code_defs)

theorem inner_loop_drains_before_close_witness:
  "m_thread stopped_with_queue = Some in_inner_loop
   \<and> pc in_inner_loop = L208
   \<and> \<not> needsQuit in_inner_loop
   \<and> \<not> m_isRecording stopped_with_queue
   \<and> \<not> m_shouldQuitProcessing stopped_with_queue
   \<and> m_ffmpegPipe stopped_with_queue \<noteq> None
   \<and> list_all (\<lambda>e. written_ok e (m_settings stopped_with_queue)) drain_schedule
   \<and> m_thread (run (map Step drain_schedule) stopped_with_queue)
        = Some (in_inner_loop\<lparr> pc := Finished, lastFrameTime := 3 \<rparr>)
   \<and> pc (in_inner_loop\<lparr> pc := Finished, lastFrameTime := 3 \<rparr>) = Finished
   \<and> length (m_frames stopped_with_queue) = 3
   \<and> piped stopped_with_queue = []
   \<and> m_frames (run (map Step drain_schedule) stopped_with_queue) = []
   \<and> map fst (piped (run (map Step drain_schedule) stopped_with_queue))
        = map fst (piped stopped_with_queue) @ m_frames stopped_with_queue"
proof -
  have a: "m_thread stopped_with_queue = Some in_inner_loop"
    by (simp add: stopped_with_queue_def stop_def)
  have b: "pc in_inner_loop = L208" and c: "\<not> needsQuit in_inner_loop"
    by (simp_all add: in_inner_loop_def)
  have d: "\<not> m_shouldQuitProcessing stopped_with_queue"
    and e: "m_ffmpegPipe stopped_with_queue \<noteq> None"
    and r: "\<not> m_isRecording stopped_with_queue"
    and l: "length (m_frames stopped_with_queue) = 3"
    and p: "piped stopped_with_queue = []"
    by (simp_all add: stopped_with_queue_def stop_def example_defs)
  have f: "\<forall>e \<in> set drain_schedule. written_ok e (m_settings stopped_with_queue)"
    by (simp add: drain_schedule_def tick_def written_ok_def dataLength_def stopped_with_queue_def
        stop_def example_defs)
  have g: "m_thread (run (map Step drain_schedule) stopped_with_queue)
        = Some (in_inner_loop\<lparr> pc := Finished, lastFrameTime := 3 \<rparr>)"
    by (simp add: drain_example)
  have h: "pc (in_inner_loop\<lparr> pc := Finished, lastFrameTime := 3 \<rparr>) = Finished"
    by simp
  show ?thesis
    using a b c d e r l p f g h inner_loop_drains_before_close [OF a b c d e f g h]
    by (simp add: list_all_iff)
qed

end
